theory Spec2Isabelle
  imports Complex_Main
begin

section \<open>SketchScript 2.0: tokenizer, parser, evaluator and interpreter\<close>

text \<open>
  The embedding follows \<^verbatim>\<open>main.py\<close>. Conventions:
  \<^item> a Python \<^verbatim>\<open>str\<close> is a \<^typ>\<open>string\<close>; a \<^typ>\<open>char\<close> stands for the code point
    with the same number, so source text is restricted to code points 0..255;
  \<^item> a Python \<^verbatim>\<open>float\<close> (and the \<^verbatim>\<open>int\<close> 0 that lookups and division default to)
    is a \<open>pyfloat\<close>: a real, an infinity or NaN. Overflow to an infinity is modelled,
    rounding and the sign of zero are not;
  \<^item> every \<^verbatim>\<open>raise\<close> of the source and every built-in exception that an operation of
    the source can throw is a constructor of \<open>error\<close>; a failing function returns \<open>Inl\<close>;
  \<^item> \<^verbatim>\<open>tokens[k]\<close> is the checked read \<open>nth_py\<close>.
\<close>

subsection \<open>Errors and checked list access\<close>

datatype error =
    UnexpectedEnd                \<comment> \<open>"Unexpected end of tokens in expression"\<close>
  | UnexpectedStop string        \<comment> \<open>"Unexpected token '...' in expression" (a stop token)\<close>
  | ExpectedRParen               \<comment> \<open>"Expected )"\<close>
  | UnexpectedToken string       \<comment> \<open>"Unexpected token in expression: ..."\<close>
  | ExtraTokens "string list"    \<comment> \<open>"Extra tokens in expression: ..."\<close>
  | ExpectedOperator             \<comment> \<open>"Expected operator in condition"\<close>
  | ExpectedComparison string    \<comment> \<open>"Expected comparison operator, got ..."\<close>
  | ExpectedEqSET                \<comment> \<open>"Expected '=' in SET statement"\<close>
  | ExpectedParenDEFINE          \<comment> \<open>"Expected ( after function name in DEFINE"\<close>
  | ExpectedBraceDEFINE          \<comment> \<open>"Expected { to start function body"\<close>
  | ExpectedParenCALL            \<comment> \<open>"Expected ( in function call"\<close>
  | UndefinedFunction string     \<comment> \<open>"Undefined function: ..."\<close>
  | ArityMismatch string nat nat \<comment> \<open>"Function f expects n arguments, got m"\<close>
  | ExpectedBraceIF              \<comment> \<open>"Expected { after IF condition"\<close>
  | ExpectedBraceWHILE           \<comment> \<open>"Expected { after WHILE condition"\<close>
  | IndexError                   \<comment> \<open>built-in: list index out of range\<close>
  | TypeError                    \<comment> \<open>built-in: operand of the wrong type\<close>
  | ValueError                   \<comment> \<open>built-in: \<^verbatim>\<open>float\<close> of a string that is no number,
                                     \<^verbatim>\<open>int\<close> of NaN, \<^verbatim>\<open>math.cos\<close> of an infinity\<close>
  | OverflowError                \<comment> \<open>built-in: \<^verbatim>\<open>int\<close> of an infinity\<close>
  | ZeroDivisionError            \<comment> \<open>built-in: float division by zero\<close>

definition nth_py :: "'a list \<Rightarrow> nat \<Rightarrow> error + 'a" where
  "nth_py xs k = (if k < length xs then Inr (xs ! k) else Inl IndexError)"

definition slice :: "'a list \<Rightarrow> nat \<Rightarrow> nat \<Rightarrow> 'a list" where
  \<comment> \<open>\<^verbatim>\<open>xs[a:b]\<close> for indices that are not negative\<close>
  "slice xs a b = take (b - a) (drop a xs)"

subsection \<open>Tokenizer\<close>

definition replace_ch :: "char \<Rightarrow> string \<Rightarrow> string" where
  \<comment> \<open>\<^verbatim>\<open>code.replace(ch, f" {ch} ")\<close> for a one-character \<^verbatim>\<open>ch\<close>\<close>
  "replace_ch ch code =
     concat (map (\<lambda>c. if c = ch then [CHR '' '', ch, CHR '' ''] else [c]) code)"

definition is_space :: "char \<Rightarrow> bool" where
  \<comment> \<open>the code points below 256 that \<^verbatim>\<open>str.split()\<close> treats as whitespace\<close>
  "is_space c = (let n = (of_char c :: nat) in
     (9 \<le> n \<and> n \<le> 13) \<or> (28 \<le> n \<and> n \<le> 32) \<or> n = 133 \<or> n = 160)"

fun split_from :: "string \<Rightarrow> string \<Rightarrow> string list" where
  "split_from cur [] = (if cur = [] then [] else [cur])"
| "split_from cur (c # cs) =
     (if is_space c then (if cur = [] then split_from [] cs else cur # split_from [] cs)
      else split_from (cur @ [c]) cs)"

definition split :: "string \<Rightarrow> string list" where
  \<comment> \<open>\<^verbatim>\<open>code.split()\<close>: the maximal runs of non-whitespace characters\<close>
  "split code = split_from [] code"

function combine :: "string list \<Rightarrow> nat \<Rightarrow> string list \<Rightarrow> error + string list" where
  "combine tokens i combined =
     (if i < length tokens then
        (case nth_py tokens i of
           Inl e \<Rightarrow> Inl e
         | Inr t \<Rightarrow>
             if t \<noteq> ''!'' then combine tokens (i + 1) (combined @ [t])
             else if \<not> i + 1 < length tokens then combine tokens (i + 1) (combined @ [t])
             else (case nth_py tokens (i + 1) of
                     Inl e \<Rightarrow> Inl e
                   | Inr t' \<Rightarrow>
                       if t' = ''='' then combine tokens (i + 2) (combined @ [''!=''])
                       else combine tokens (i + 1) (combined @ [t])))
      else Inr combined)"
  by pat_completeness auto
termination
  by (relation "measure (\<lambda>(tokens, i, combined). length tokens - i)") auto

definition tokenize :: "string \<Rightarrow> error + string list" where
  "tokenize code =
     (let code1 = foldl (\<lambda>code ch. replace_ch ch code) code ''{}(),'';
          code2 = foldl (\<lambda>code op. replace_ch op code) code1 ''+-*/=><!'';
          tokens = filter (\<lambda>tok. tok \<noteq> []) (split code2)
      in combine tokens 0 [])"

subsection \<open>Block end finder\<close>

function find_block_end_loop :: "string list \<Rightarrow> nat \<Rightarrow> int \<Rightarrow> error + nat" where
  "find_block_end_loop tokens i depth =
     (if i < length tokens \<and> depth > 0 then
        (case nth_py tokens i of
           Inl e \<Rightarrow> Inl e
         | Inr t \<Rightarrow>
             if t = ''{'' then find_block_end_loop tokens (i + 1) (depth + 1)
             else if t = ''}'' then find_block_end_loop tokens (i + 1) (depth - 1)
             else find_block_end_loop tokens (i + 1) depth)
      else Inr i)"
  by pat_completeness auto
termination
  by (relation "measure (\<lambda>(tokens, i, depth). length tokens - i)") auto

definition find_block_end :: "string list \<Rightarrow> nat \<Rightarrow> error + nat" where
  "find_block_end tokens start = find_block_end_loop tokens start 1"

subsection \<open>Floats\<close>

text \<open>
  A Python \<^verbatim>\<open>float\<close> is an IEEE double: a finite number, \<^verbatim>\<open>inf\<close>, \<^verbatim>\<open>-inf\<close> or \<^verbatim>\<open>nan\<close>.
  A finite number is modelled by the real it stands for. An operation on finite numbers
  gives the real result, unless its magnitude reaches \<open>2 ^ 1024 - 2 ^ 970\<close>, from where
  a double rounds to an infinity: \<open>fl\<close> is this overflow. Rounding below that limit and
  the sign of zero are not modelled. The operations on infinities and NaN are those of
  IEEE arithmetic.
\<close>

datatype pyfloat = Fin real | PInf | NInf | NaN

definition float_limit :: real where
  "float_limit = 2 ^ 1024 - 2 ^ 970"

definition fl :: "real \<Rightarrow> pyfloat" where
  "fl r = (if r \<ge> float_limit then PInf else if r \<le> - float_limit then NInf else Fin r)"

fun float_neg :: "pyfloat \<Rightarrow> pyfloat" where
  "float_neg (Fin a) = Fin (- a)"
| "float_neg PInf = NInf"
| "float_neg NInf = PInf"
| "float_neg NaN = NaN"

fun float_add :: "pyfloat \<Rightarrow> pyfloat \<Rightarrow> pyfloat" where
  "float_add (Fin a) (Fin b) = fl (a + b)"
| "float_add NaN y = NaN"
| "float_add x NaN = NaN"
| "float_add PInf NInf = NaN"
| "float_add NInf PInf = NaN"
| "float_add PInf y = PInf"
| "float_add NInf y = NInf"
| "float_add (Fin a) y = y"

definition float_sub :: "pyfloat \<Rightarrow> pyfloat \<Rightarrow> pyfloat" where
  "float_sub x y = float_add x (float_neg y)"

fun float_negative :: "pyfloat \<Rightarrow> bool" where
  "float_negative (Fin a) = (a < 0)"
| "float_negative NInf = True"
| "float_negative x = False"

fun float_mul :: "pyfloat \<Rightarrow> pyfloat \<Rightarrow> pyfloat" where
  "float_mul (Fin a) (Fin b) = fl (a * b)"
| "float_mul NaN y = NaN"
| "float_mul x NaN = NaN"
| "float_mul x y =
     (if x = Fin 0 \<or> y = Fin 0 then NaN
      else if float_negative x = float_negative y then PInf else NInf)"

fun float_div :: "pyfloat \<Rightarrow> pyfloat \<Rightarrow> error + pyfloat" where
  "float_div (Fin a) (Fin b) = (if b = 0 then Inl ZeroDivisionError else Inr (fl (a / b)))"
| "float_div NaN (Fin b) = (if b = 0 then Inl ZeroDivisionError else Inr NaN)"
| "float_div x (Fin b) =
     (if b = 0 then Inl ZeroDivisionError
      else Inr (if float_negative x = (b < 0) then PInf else NInf))"
| "float_div NaN y = Inr NaN"
| "float_div x NaN = Inr NaN"
| "float_div (Fin a) y = Inr (Fin 0)"
| "float_div x y = Inr NaN"

fun float_lt :: "pyfloat \<Rightarrow> pyfloat \<Rightarrow> bool" where
  "float_lt (Fin a) (Fin b) = (a < b)"
| "float_lt NaN y = False"
| "float_lt x NaN = False"
| "float_lt x NInf = False"
| "float_lt PInf y = False"
| "float_lt x y = True"

fun float_eq :: "pyfloat \<Rightarrow> pyfloat \<Rightarrow> bool" where
  "float_eq NaN y = False"
| "float_eq x NaN = False"
| "float_eq x y = (x = y)"

definition trunc :: "real \<Rightarrow> int" where
  \<comment> \<open>rounding toward zero\<close>
  "trunc r = (if r \<ge> 0 then \<lfloor>r\<rfloor> else \<lceil>r\<rceil>)"

fun float_int :: "pyfloat \<Rightarrow> error + int" where
  \<comment> \<open>\<^verbatim>\<open>int(x)\<close>: truncation toward zero\<close>
  "float_int (Fin r) = Inr (trunc r)"
| "float_int NaN = Inl ValueError"
| "float_int x = Inl OverflowError"

fun float_cos :: "pyfloat \<Rightarrow> error + pyfloat" where
  \<comment> \<open>\<^verbatim>\<open>math.cos(x)\<close>\<close>
  "float_cos (Fin r) = Inr (Fin (cos r))"
| "float_cos NaN = Inr NaN"
| "float_cos x = Inl ValueError"

fun float_sin :: "pyfloat \<Rightarrow> error + pyfloat" where
  \<comment> \<open>\<^verbatim>\<open>math.sin(x)\<close>\<close>
  "float_sin (Fin r) = Inr (Fin (sin r))"
| "float_sin NaN = Inr NaN"
| "float_sin x = Inl ValueError"

definition radians :: "pyfloat \<Rightarrow> pyfloat" where
  \<comment> \<open>\<^verbatim>\<open>math.radians(x)\<close>\<close>
  "radians d = float_mul d (Fin (pi / 180))"

subsection \<open>Expression parser\<close>

text \<open>
  An expression node is a \<^verbatim>\<open>float\<close>, a \<^verbatim>\<open>str\<close> (a variable name) or a
  \<^verbatim>\<open>dict\<close> \<^verbatim>\<open>{"op", "left", "right"}\<close>.
\<close>

datatype expr = Num pyfloat | Name string | BinOp string expr expr

definition COMMAND_KEYWORDS :: "string set" where
  "COMMAND_KEYWORDS = {''SET'', ''DEFINE'', ''CALL'', ''IF'', ''WHILE'', ''MOVE'', ''TURN'',
     ''DRAW'', ''COLOR'', ''}'', ''{''}"

text \<open>
  \<^verbatim>\<open>str.isdigit\<close> and \<^verbatim>\<open>str.isalpha\<close> on code points below 256: the digits are
  \<^verbatim>\<open>0\<close>..\<^verbatim>\<open>9\<close> and the superscripts 178, 179, 185; \<^verbatim>\<open>float\<close> accepts only the
  former and raises \<^verbatim>\<open>ValueError\<close> on the latter.
\<close>

definition is_digit_ch :: "char \<Rightarrow> bool" where
  "is_digit_ch c = (let n = (of_char c :: nat) in
     (48 \<le> n \<and> n \<le> 57) \<or> n = 178 \<or> n = 179 \<or> n = 185)"

definition is_ascii_digit :: "char \<Rightarrow> bool" where
  "is_ascii_digit c = (let n = (of_char c :: nat) in 48 \<le> n \<and> n \<le> 57)"

definition is_alpha_ch :: "char \<Rightarrow> bool" where
  "is_alpha_ch c = (let n = (of_char c :: nat) in
     (65 \<le> n \<and> n \<le> 90) \<or> (97 \<le> n \<and> n \<le> 122) \<or> n = 170 \<or> n = 181 \<or> n = 186 \<or>
     (192 \<le> n \<and> n \<le> 214) \<or> (216 \<le> n \<and> n \<le> 246) \<or> (248 \<le> n \<and> n \<le> 255))"

definition isdigit :: "string \<Rightarrow> bool" where
  "isdigit s = (s \<noteq> [] \<and> (\<forall>c \<in> set s. is_digit_ch c))"

definition isalpha :: "string \<Rightarrow> bool" where
  "isalpha s = (s \<noteq> [] \<and> (\<forall>c \<in> set s. is_alpha_ch c))"

fun remove_first_dot :: "string \<Rightarrow> string" where
  "remove_first_dot [] = []"
| "remove_first_dot (c # cs) = (if c = CHR ''.'' then cs else c # remove_first_dot cs)"

definition digits_value :: "string \<Rightarrow> nat" where
  "digits_value s = foldl (\<lambda>a c. 10 * a + (of_char c - 48)) 0 s"

definition float_py :: "string \<Rightarrow> error + pyfloat" where
  \<comment> \<open>\<^verbatim>\<open>float(token)\<close> for a token that passed the digit test\<close>
  "float_py token =
     (if \<forall>c \<in> set token. is_ascii_digit c \<or> c = CHR ''.'' then
        (let ip = takeWhile (\<lambda>c. c \<noteq> CHR ''.'') token;
             fp = drop (length ip + 1) token
         in Inr (fl (real (digits_value ip) + real (digits_value fp) / 10 ^ length fp)))
      else Inl ValueError)"

function parse_expression :: "string list \<Rightarrow> nat \<Rightarrow> string set \<Rightarrow> error + expr \<times> nat"
  and parse_expression_loop :: "string list \<Rightarrow> expr \<Rightarrow> nat \<Rightarrow> string set \<Rightarrow> error + expr \<times> nat"
  and parse_term :: "string list \<Rightarrow> nat \<Rightarrow> string set \<Rightarrow> error + expr \<times> nat"
  and parse_term_loop :: "string list \<Rightarrow> expr \<Rightarrow> nat \<Rightarrow> string set \<Rightarrow> error + expr \<times> nat"
  and parse_factor :: "string list \<Rightarrow> nat \<Rightarrow> string set \<Rightarrow> error + expr \<times> nat"
where
  "parse_expression tokens i stop_tokens =
     (case parse_term tokens i stop_tokens of
        Inl e \<Rightarrow> Inl e
      | Inr (node, i') \<Rightarrow> parse_expression_loop tokens node i' stop_tokens)"
| "parse_expression_loop tokens node i stop_tokens =
     (if i < length tokens \<and> tokens ! i \<in> {''+'', ''-''} \<and> tokens ! i \<notin> stop_tokens then
        (case parse_term tokens (i + 1) stop_tokens of
           Inl e \<Rightarrow> Inl e
         | Inr (right, i') \<Rightarrow>
             parse_expression_loop tokens (BinOp (tokens ! i) node right) i' stop_tokens)
      else Inr (node, i))"
| "parse_term tokens i stop_tokens =
     (case parse_factor tokens i stop_tokens of
        Inl e \<Rightarrow> Inl e
      | Inr (node, i') \<Rightarrow> parse_term_loop tokens node i' stop_tokens)"
| "parse_term_loop tokens node i stop_tokens =
     (if i < length tokens \<and> tokens ! i \<in> {''*'', ''/''} \<and> tokens ! i \<notin> stop_tokens then
        (case parse_factor tokens (i + 1) stop_tokens of
           Inl e \<Rightarrow> Inl e
         | Inr (right, i') \<Rightarrow>
             parse_term_loop tokens (BinOp (tokens ! i) node right) i' stop_tokens)
      else Inr (node, i))"
| "parse_factor tokens i stop_tokens =
     (if i \<ge> length tokens then Inl UnexpectedEnd
      else let token = tokens ! i in
        if token \<in> stop_tokens then Inl (UnexpectedStop token)
        else if token = ''('' then
          (case parse_expression tokens (i + 1) (stop_tokens \<union> {'')''}) of
             Inl e \<Rightarrow> Inl e
           | Inr (node, i') \<Rightarrow>
               if i' \<ge> length tokens \<or> tokens ! i' \<noteq> '')'' then Inl ExpectedRParen
               else Inr (node, i' + 1))
        else if isdigit (remove_first_dot token) then
          (case float_py token of Inl e \<Rightarrow> Inl e | Inr v \<Rightarrow> Inr (Num v, i + 1))
        else if isalpha token \<or> token \<in> COMMAND_KEYWORDS then Inr (Name token, i + 1)
        else Inl (UnexpectedToken token))"
  by pat_completeness auto


lemma parse_progress_partial:
  "parse_expression_parse_expression_loop_parse_term_parse_term_loop_parse_factor_dom
     (Inl (Inl (tokens, i, stop))) \<Longrightarrow>
   (\<forall>node i'. parse_expression tokens i stop = Inr (node, i') \<longrightarrow> i < i' \<and> i' \<le> length tokens)"
  "parse_expression_parse_expression_loop_parse_term_parse_term_loop_parse_factor_dom
     (Inl (Inr (tokens, node0, i, stop))) \<Longrightarrow>
   (\<forall>node i'. i \<le> length tokens \<longrightarrow> parse_expression_loop tokens node0 i stop = Inr (node, i')
       \<longrightarrow> i \<le> i' \<and> i' \<le> length tokens)"
  "parse_expression_parse_expression_loop_parse_term_parse_term_loop_parse_factor_dom
     (Inr (Inl (tokens, i, stop))) \<Longrightarrow>
   (\<forall>node i'. parse_term tokens i stop = Inr (node, i') \<longrightarrow> i < i' \<and> i' \<le> length tokens)"
  "parse_expression_parse_expression_loop_parse_term_parse_term_loop_parse_factor_dom
     (Inr (Inr (Inl (tokens, node0, i, stop)))) \<Longrightarrow>
   (\<forall>node i'. i \<le> length tokens \<longrightarrow> parse_term_loop tokens node0 i stop = Inr (node, i')
       \<longrightarrow> i \<le> i' \<and> i' \<le> length tokens)"
  "parse_expression_parse_expression_loop_parse_term_parse_term_loop_parse_factor_dom
     (Inr (Inr (Inr (tokens, i, stop)))) \<Longrightarrow>
   (\<forall>node i'. parse_factor tokens i stop = Inr (node, i') \<longrightarrow> i < i' \<and> i' \<le> length tokens)"
proof (induct tokens i stop and tokens node0 i stop and tokens i stop and tokens node0 i stop
          and tokens i stop
       rule: parse_expression_parse_expression_loop_parse_term_parse_term_loop_parse_factor.pinduct)
  case (1 tokens i stop_tokens)
  show ?case
  proof (intro allI impI)
    fix node i'
    assume a: "parse_expression tokens i stop_tokens = Inr (node, i')"
    from a 1(1) obtain n1 i1 where t: "parse_term tokens i stop_tokens = Inr (n1, i1)"
      and l: "parse_expression_loop tokens n1 i1 stop_tokens = Inr (node, i')"
      by (auto simp: parse_expression.psimps split: sum.splits)
    from 1(2) t have "i < i1" "i1 \<le> length tokens" by auto
    moreover from 1(3)[OF t refl] l \<open>i1 \<le> length tokens\<close> have "i1 \<le> i'" "i' \<le> length tokens" by auto
    ultimately show "i < i' \<and> i' \<le> length tokens" by simp
  qed
next
  case (2 tokens node0 i stop_tokens)
  show ?case
  proof (intro allI impI)
    fix node i'
    assume le: "i \<le> length tokens"
      and a: "parse_expression_loop tokens node0 i stop_tokens = Inr (node, i')"
    show "i \<le> i' \<and> i' \<le> length tokens"
    proof (cases "i < length tokens \<and> tokens ! i \<in> {''+'', ''-''} \<and> tokens ! i \<notin> stop_tokens")
      case True
      from a 2(1) True obtain n1 i1 where t: "parse_term tokens (i + 1) stop_tokens = Inr (n1, i1)"
        and l: "parse_expression_loop tokens (BinOp (tokens ! i) node0 n1) i1 stop_tokens = Inr (node, i')"
        by (simp add: parse_expression_loop.psimps split: sum.splits prod.splits)
      from 2(2)[OF True] t have "i + 1 < i1" "i1 \<le> length tokens" by auto
      moreover from 2(3)[OF True t refl] l \<open>i1 \<le> length tokens\<close>
      have "i1 \<le> i'" "i' \<le> length tokens" by auto
      ultimately show ?thesis by simp
    next
      case False
      with a 2(1) le show ?thesis by (auto simp: parse_expression_loop.psimps split: if_splits)
    qed
  qed
next
  case (3 tokens i stop_tokens)
  show ?case
  proof (intro allI impI)
    fix node i'
    assume a: "parse_term tokens i stop_tokens = Inr (node, i')"
    from a 3(1) obtain n1 i1 where t: "parse_factor tokens i stop_tokens = Inr (n1, i1)"
      and l: "parse_term_loop tokens n1 i1 stop_tokens = Inr (node, i')"
      by (auto simp: parse_term.psimps split: sum.splits)
    from 3(2) t have "i < i1" "i1 \<le> length tokens" by auto
    moreover from 3(3)[OF t refl] l \<open>i1 \<le> length tokens\<close> have "i1 \<le> i'" "i' \<le> length tokens" by auto
    ultimately show "i < i' \<and> i' \<le> length tokens" by simp
  qed
next
  case (4 tokens node0 i stop_tokens)
  show ?case
  proof (intro allI impI)
    fix node i'
    assume le: "i \<le> length tokens"
      and a: "parse_term_loop tokens node0 i stop_tokens = Inr (node, i')"
    show "i \<le> i' \<and> i' \<le> length tokens"
    proof (cases "i < length tokens \<and> tokens ! i \<in> {''*'', ''/''} \<and> tokens ! i \<notin> stop_tokens")
      case True
      from a 4(1) True obtain n1 i1 where t: "parse_factor tokens (i + 1) stop_tokens = Inr (n1, i1)"
        and l: "parse_term_loop tokens (BinOp (tokens ! i) node0 n1) i1 stop_tokens = Inr (node, i')"
        by (simp add: parse_term_loop.psimps split: sum.splits prod.splits)
      from 4(2)[OF True] t have "i + 1 < i1" "i1 \<le> length tokens" by auto
      moreover from 4(3)[OF True t refl] l \<open>i1 \<le> length tokens\<close>
      have "i1 \<le> i'" "i' \<le> length tokens" by auto
      ultimately show ?thesis by simp
    next
      case False
      with a 4(1) le show ?thesis by (auto simp: parse_term_loop.psimps split: if_splits)
    qed
  qed
next
  case (5 tokens i stop_tokens)
  show ?case
  proof (intro allI impI)
    fix node i'
    assume a: "parse_factor tokens i stop_tokens = Inr (node, i')"
    from a 5(1) have lt: "\<not> length tokens \<le> i" and ns: "tokens ! i \<notin> stop_tokens"
      by (auto simp: parse_factor.psimps Let_def split: if_splits)
    show "i < i' \<and> i' \<le> length tokens"
    proof (cases "tokens ! i = ''(''")
      case True
      from a 5(1) lt ns True obtain i1 where
        e: "parse_expression tokens (i + 1) (stop_tokens \<union> {'')''}) = Inr (node, i1)"
        and r: "i1 < length tokens" "i' = i1 + 1"
        by (auto simp: parse_factor.psimps Let_def split: sum.splits if_splits)
      from 5(2)[OF lt refl ns True] e have "i + 1 < i1" by auto
      with r show ?thesis by simp
    next
      case False
      with a 5(1) lt ns show ?thesis
        by (auto simp: parse_factor.psimps Let_def split: sum.splits if_splits)
    qed
  qed
qed

definition parse_measure ::
  "(string list \<times> nat \<times> string set + string list \<times> expr \<times> nat \<times> string set) +
   string list \<times> nat \<times> string set + string list \<times> expr \<times> nat \<times> string set +
   string list \<times> nat \<times> string set \<Rightarrow> nat" where
  "parse_measure = (\<lambda>x. case x of
      Inl (Inl (tokens, i, stop)) \<Rightarrow> 3 * (length tokens - i) + (2::nat)
    | Inl (Inr (tokens, node, i, stop)) \<Rightarrow> 3 * (length tokens - i) + 2
    | Inr (Inl (tokens, i, stop)) \<Rightarrow> 3 * (length tokens - i) + 1
    | Inr (Inr (Inl (tokens, node, i, stop))) \<Rightarrow> 3 * (length tokens - i) + 1
    | Inr (Inr (Inr (tokens, i, stop))) \<Rightarrow> 3 * (length tokens - i))"

lemma parse_all_dom:
  "parse_expression_parse_expression_loop_parse_term_parse_term_loop_parse_factor_dom x"
proof -
  have "All parse_expression_parse_expression_loop_parse_term_parse_term_loop_parse_factor_dom"
  apply (relation "measure parse_measure")
  apply (simp_all add: parse_measure_def)
  subgoal for tokens i stop_tokens b x y
    using parse_progress_partial(3)[of tokens i stop_tokens] by auto
  subgoal for tokens i stop_tokens b x y
    using parse_progress_partial(3)[of tokens "Suc i" stop_tokens] by auto
  subgoal for tokens i stop_tokens b x y
    using parse_progress_partial(5)[of tokens i stop_tokens] by auto
  subgoal for tokens i stop_tokens b x y
    using parse_progress_partial(5)[of tokens "Suc i" stop_tokens] by auto
  done
  then show ?thesis by blast
qed

termination parse_expression
  using parse_all_dom by blast

declare parse_expression.simps [simp del] parse_expression_loop.simps [simp del]
  parse_term.simps [simp del] parse_term_loop.simps [simp del] parse_factor.simps [simp del]

lemma parse_progress:
  "parse_expression tokens i stop = Inr (node, i') \<Longrightarrow> i < i' \<and> i' \<le> length tokens"
  "parse_term tokens i stop = Inr (node, i') \<Longrightarrow> i < i' \<and> i' \<le> length tokens"
  "parse_factor tokens i stop = Inr (node, i') \<Longrightarrow> i < i' \<and> i' \<le> length tokens"
  using parse_progress_partial(1,3,5)[of tokens i stop] parse_all_dom
  by blast+

definition parse_full_expression :: "string list \<Rightarrow> error + expr" where
  "parse_full_expression token_list =
     (case parse_expression token_list 0 {} of
        Inl e \<Rightarrow> Inl e
      | Inr (expr, i) \<Rightarrow>
          if i \<noteq> length token_list then Inl (ExtraTokens (drop i token_list)) else Inr expr)"

subsection \<open>Values and the evaluator\<close>

text \<open>
  What \<^verbatim>\<open>symbols\<close> holds and \<^verbatim>\<open>eval_expr\<close> returns: a number, a function definition
  \<^verbatim>\<open>{"params", "body"}\<close>, or \<^verbatim>\<open>None\<close> (what \<^verbatim>\<open>eval_expr\<close> returns by falling off its
  operator chain). Arithmetic and ordering are defined on numbers only and raise
  \<^verbatim>\<open>TypeError\<close> otherwise; \<^verbatim>\<open>==\<close> and \<^verbatim>\<open>!=\<close> compare any two values.
\<close>

datatype val = Number pyfloat | Function "string list" "string list" | NoneVal

type_synonym env = "string \<rightharpoonup> val"

fun py_add :: "val \<Rightarrow> val \<Rightarrow> error + val" where
  "py_add (Number a) (Number b) = Inr (Number (float_add a b))"
| "py_add _ _ = Inl TypeError"

fun py_sub :: "val \<Rightarrow> val \<Rightarrow> error + val" where
  "py_sub (Number a) (Number b) = Inr (Number (float_sub a b))"
| "py_sub _ _ = Inl TypeError"

fun py_mul :: "val \<Rightarrow> val \<Rightarrow> error + val" where
  "py_mul (Number a) (Number b) = Inr (Number (float_mul a b))"
| "py_mul _ _ = Inl TypeError"

fun py_truediv :: "val \<Rightarrow> val \<Rightarrow> error + val" where
  "py_truediv (Number a) (Number b) =
     (case float_div a b of Inl e \<Rightarrow> Inl e | Inr q \<Rightarrow> Inr (Number q))"
| "py_truediv _ _ = Inl TypeError"

fun py_gt :: "val \<Rightarrow> val \<Rightarrow> error + bool" where
  "py_gt (Number a) (Number b) = Inr (float_lt b a)"
| "py_gt _ _ = Inl TypeError"

fun py_lt :: "val \<Rightarrow> val \<Rightarrow> error + bool" where
  "py_lt (Number a) (Number b) = Inr (float_lt a b)"
| "py_lt _ _ = Inl TypeError"

fun py_eq :: "val \<Rightarrow> val \<Rightarrow> bool" where
  \<comment> \<open>\<^verbatim>\<open>==\<close>; \<^verbatim>\<open>!=\<close> is its negation\<close>
  "py_eq (Number a) (Number b) = float_eq a b"
| "py_eq v w = (v = w)"

fun eval_expr :: "env \<Rightarrow> expr \<Rightarrow> error + val" where
  "eval_expr syms (BinOp op l r) =
     (case eval_expr syms l of
        Inl e \<Rightarrow> Inl e
      | Inr left \<Rightarrow>
          (case eval_expr syms r of
             Inl e \<Rightarrow> Inl e
           | Inr right \<Rightarrow>
               if op = ''+'' then py_add left right
               else if op = ''-'' then py_sub left right
               else if op = ''*'' then py_mul left right
               else if op = ''/'' then
                 (if \<not> py_eq right (Number (Fin 0)) then py_truediv left right
                  else Inr (Number (Fin 0)))
               else Inr NoneVal))"
| "eval_expr syms (Num v) = Inr (Number v)"
| "eval_expr syms (Name n) = Inr (case syms n of None \<Rightarrow> Number (Fin 0) | Some v \<Rightarrow> v)"

datatype condition = Condition expr string expr

fun eval_condition :: "env \<Rightarrow> condition \<Rightarrow> error + bool" where
  "eval_condition syms (Condition l op r) =
     (case eval_expr syms l of
        Inl e \<Rightarrow> Inl e
      | Inr left \<Rightarrow>
          (case eval_expr syms r of
             Inl e \<Rightarrow> Inl e
           | Inr right \<Rightarrow>
               if op = ''>'' then py_gt left right
               else if op = ''<'' then py_lt left right
               else if op = ''='' then Inr (py_eq left right)
               else if op = ''!='' then Inr (\<not> py_eq left right)
               else Inr False))"

definition parse_condition :: "string list \<Rightarrow> nat \<Rightarrow> error + condition \<times> nat" where
  "parse_condition tokens i =
     (case parse_expression tokens i {''>'', ''<'', ''='', ''!=''} of
        Inl e \<Rightarrow> Inl e
      | Inr (left, i1) \<Rightarrow>
          if i1 \<ge> length tokens then Inl ExpectedOperator
          else let op = tokens ! i1 in
            if op \<notin> {''>'', ''<'', ''='', ''!=''} then Inl (ExpectedComparison op)
            else (case parse_expression tokens (i1 + 1) {''{''} of
                    Inl e \<Rightarrow> Inl e
                  | Inr (right, i2) \<Rightarrow> Inr (Condition left op right, i2)))"

subsection \<open>Interpreter state and drawing\<close>

type_synonym color = "nat \<times> nat \<times> nat"

text \<open>
  What the \<^verbatim>\<open>pygame.draw\<close> calls put on the screen, in the order of the calls. The
  renderer is outside the model: a call is recorded with its arguments, whatever pygame
  does with them.
\<close>

datatype primitive =
    Line color "pyfloat \<times> pyfloat" "pyfloat \<times> pyfloat" nat
  | Circle color "int \<times> int" int nat
  | Rect color "int \<times> int \<times> int \<times> int" nat
  | Polygon color "(pyfloat \<times> pyfloat) list" nat

record cursor =
  cursor_x :: pyfloat
  cursor_y :: pyfloat
  cursor_angle :: pyfloat
  cursor_color :: color

text \<open>
  The globals of the interpreter. \<open>rng\<close> is the stream of numbers that the random
  generator will return; \<^verbatim>\<open>random.choice\<close> takes the next one.
\<close>

record state =
  cursor :: cursor
  symbols :: env
  call_stack :: "env list"
  screen :: "primitive list"
  rng :: "nat \<Rightarrow> nat"

definition COLORS :: "(string \<times> color) list" where
  "COLORS = [(''Red'', (255, 0, 0)), (''Blue'', (0, 0, 255)), (''Green'', (0, 255, 0)),
     (''Black'', (0, 0, 0))]"

definition WIDTH :: int where "WIDTH = 800"

definition HEIGHT :: int where "HEIGHT = 600"

definition initial_state :: "(nat \<Rightarrow> nat) \<Rightarrow> state" where
  "initial_state r =
     \<lparr>cursor = \<lparr>cursor_x = Fin (real_of_int (WIDTH div 2)),
                 cursor_y = Fin (real_of_int (HEIGHT div 2)),
                 cursor_angle = Fin 0, cursor_color = (255, 255, 255)\<rparr>,
      symbols = Map.empty, call_stack = [], screen = [], rng = r\<rparr>"

text \<open>
  \<^verbatim>\<open>move_cursor\<close>. In \<^verbatim>\<open>distance * math.cos(angle_rad)\<close> the cosine is computed before
  the product, so an infinite angle raises \<^verbatim>\<open>ValueError\<close> also when the distance is no
  number. Once \<^verbatim>\<open>x\<close> is updated the update of \<^verbatim>\<open>y\<close> cannot raise (the sine of the same
  angle, the same distance), so an exception leaves the cursor as it was.
\<close>

definition move_cursor :: "val \<Rightarrow> string \<Rightarrow> state \<Rightarrow> error + state" where
  "move_cursor distance direction s =
     (let c = cursor s;
          old = (cursor_x c, cursor_y c);
          angle_rad = radians (cursor_angle c)
      in (case (if direction = ''Forward'' then
                  (case float_cos angle_rad of Inl e \<Rightarrow> Inl e | Inr cs \<Rightarrow>
                  (case distance of
                     Number d \<Rightarrow>
                       (case float_sin angle_rad of Inl e \<Rightarrow> Inl e | Inr sn \<Rightarrow>
                          Inr (c\<lparr>cursor_x := float_add (cursor_x c) (float_mul d cs),
                                cursor_y := float_add (cursor_y c) (float_mul d sn)\<rparr>))
                   | _ \<Rightarrow> Inl TypeError))
                else if direction = ''Backward'' then
                  (case float_cos angle_rad of Inl e \<Rightarrow> Inl e | Inr cs \<Rightarrow>
                  (case distance of
                     Number d \<Rightarrow>
                       (case float_sin angle_rad of Inl e \<Rightarrow> Inl e | Inr sn \<Rightarrow>
                          Inr (c\<lparr>cursor_x := float_sub (cursor_x c) (float_mul d cs),
                                cursor_y := float_sub (cursor_y c) (float_mul d sn)\<rparr>))
                   | _ \<Rightarrow> Inl TypeError))
                else Inr c) of
            Inl e \<Rightarrow> Inl e
          | Inr c' \<Rightarrow>
              Inr (s\<lparr>cursor := c',
                     screen := screen s @ [Line (cursor_color c') old (cursor_x c', cursor_y c') 2]\<rparr>)))"

definition py_int :: "val \<Rightarrow> error + int" where
  \<comment> \<open>\<^verbatim>\<open>int(v)\<close>: a float is truncated toward zero, an infinity raises
      \<^verbatim>\<open>OverflowError\<close>, NaN raises \<^verbatim>\<open>ValueError\<close>, a \<^verbatim>\<open>dict\<close> or \<^verbatim>\<open>None\<close> raises
      \<^verbatim>\<open>TypeError\<close>\<close>
  "py_int v = (case v of
       Number x \<Rightarrow> float_int x
     | _ \<Rightarrow> Inl TypeError)"

definition star_points :: "int \<times> int \<Rightarrow> pyfloat \<Rightarrow> (pyfloat \<times> pyfloat) list" where
  "star_points pos sz =
     concat (map (\<lambda>i.
        let angle = real i * 4 * pi / 5;
            angle' = angle + 2 * pi / 5
        in [(float_add (Fin (real_of_int (fst pos))) (float_mul sz (Fin (cos angle))),
             float_add (Fin (real_of_int (snd pos))) (float_mul sz (Fin (sin angle)))),
            (float_add (Fin (real_of_int (fst pos)))
               (float_mul (float_mul sz (Fin 0.5)) (Fin (cos angle'))),
             float_add (Fin (real_of_int (snd pos)))
               (float_mul (float_mul sz (Fin 0.5)) (Fin (sin angle'))))]) [0..<5])"

definition draw_shape :: "string \<Rightarrow> val \<Rightarrow> val \<Rightarrow> val \<Rightarrow> state \<Rightarrow> error + state" where
  \<comment> \<open>\<open>sz\<close> is the source's \<^verbatim>\<open>size\<close>; \<open>x\<close> and \<open>y\<close> are \<open>NoneVal\<close> when no position is given\<close>
  "draw_shape shape sz x y s =
     (case (if x \<noteq> NoneVal then py_int x else py_int (Number (cursor_x (cursor s)))) of
        Inl e \<Rightarrow> Inl e
      | Inr px \<Rightarrow>
     (case (if y \<noteq> NoneVal then py_int y else py_int (Number (cursor_y (cursor s)))) of
        Inl e \<Rightarrow> Inl e
      | Inr py \<Rightarrow>
          if shape = ''Circle'' then
            (case py_int sz of
               Inl e \<Rightarrow> Inl e
             | Inr r \<Rightarrow>
                 Inr (s\<lparr>screen := screen s @ [Circle (cursor_color (cursor s)) (px, py) r 2]\<rparr>))
          else if shape = ''Square'' then
            (case py_int sz of
               Inl e \<Rightarrow> Inl e
             | Inr n \<Rightarrow>
                 Inr (s\<lparr>screen := screen s @
                        [Rect (cursor_color (cursor s)) (px - n div 2, py - n div 2, n, n) 2]\<rparr>))
          else if shape = ''Star'' then
            (case sz of
               Number v \<Rightarrow>
                 Inr (s\<lparr>screen := screen s @
                        [Polygon (cursor_color (cursor s)) (star_points (px, py) v) 2]\<rparr>)
             | _ \<Rightarrow> Inl TypeError)
          else Inr s))"

subsection \<open>Statements\<close>

text \<open>
  One definition per branch of \<^verbatim>\<open>interpret\<close> that does not call \<^verbatim>\<open>interpret\<close>: it
  returns the index of the next statement and the new state, or the exception. None of
  these branches changes a global before its last possible \<^verbatim>\<open>raise\<close>, so the state at
  an exception is the state before the statement.
\<close>

definition stmt_SET :: "string list \<Rightarrow> nat \<Rightarrow> state \<Rightarrow> error + nat \<times> state" where
  "stmt_SET tokens i s =
     (case nth_py tokens (i + 1) of Inl e \<Rightarrow> Inl e | Inr var \<Rightarrow>
     (case nth_py tokens (i + 2) of Inl e \<Rightarrow> Inl e | Inr t \<Rightarrow>
        if t \<noteq> ''='' then Inl ExpectedEqSET
        else
     (case parse_expression tokens (i + 3) COMMAND_KEYWORDS of Inl e \<Rightarrow> Inl e | Inr (expr, new_i) \<Rightarrow>
     (case eval_expr (symbols s) expr of Inl e \<Rightarrow> Inl e | Inr v \<Rightarrow>
        Inr (new_i, s\<lparr>symbols := (symbols s)(var \<mapsto> v)\<rparr>)))))"

function define_params :: "string list \<Rightarrow> nat \<Rightarrow> string list \<Rightarrow> error + string list \<times> nat" where
  "define_params tokens j params =
     (case nth_py tokens j of
        Inl e \<Rightarrow> Inl e
      | Inr t \<Rightarrow>
          if t \<noteq> '')'' then
            define_params tokens (j + 1) (if t \<noteq> '','' then params @ [t] else params)
          else Inr (params, j))"
  by pat_completeness auto
termination
  by (relation "measure (\<lambda>(tokens, j, params). length tokens - j)")
     (auto simp: nth_py_def split: if_splits)

definition stmt_DEFINE :: "string list \<Rightarrow> nat \<Rightarrow> state \<Rightarrow> error + nat \<times> state" where
  "stmt_DEFINE tokens i s =
     (case nth_py tokens (i + 1) of Inl e \<Rightarrow> Inl e | Inr func_name \<Rightarrow>
     (case nth_py tokens (i + 2) of Inl e \<Rightarrow> Inl e | Inr t \<Rightarrow>
        if t \<noteq> ''('' then Inl ExpectedParenDEFINE
        else
     (case define_params tokens (i + 3) [] of Inl e \<Rightarrow> Inl e | Inr (params, j) \<Rightarrow>
     (case nth_py tokens (j + 1) of Inl e \<Rightarrow> Inl e | Inr t' \<Rightarrow>
        if t' \<noteq> ''{'' then Inl ExpectedBraceDEFINE
        else let body_start = j + 2 in
     (case find_block_end tokens body_start of Inl e \<Rightarrow> Inl e | Inr body_end \<Rightarrow>
        let func_body = slice tokens body_start (body_end - 1) in
        Inr (body_end, s\<lparr>symbols := (symbols s)(func_name \<mapsto> Function params func_body)\<rparr>))))))"

function call_args ::
  "string list \<Rightarrow> nat \<Rightarrow> expr list \<Rightarrow> string list \<Rightarrow> error + expr list \<times> string list \<times> nat" where
  "call_args tokens j args arg_tokens =
     (case nth_py tokens j of
        Inl e \<Rightarrow> Inl e
      | Inr t \<Rightarrow>
          if t \<noteq> '')'' then
            (if t = '','' then
               (if arg_tokens \<noteq> [] then
                  (case parse_full_expression arg_tokens of
                     Inl e \<Rightarrow> Inl e
                   | Inr a \<Rightarrow> call_args tokens (j + 1) (args @ [a]) [])
                else call_args tokens (j + 1) args arg_tokens)
             else call_args tokens (j + 1) args (arg_tokens @ [t]))
          else Inr (args, arg_tokens, j))"
  by pat_completeness auto
termination
  by (relation "measure (\<lambda>(tokens, j, args, arg_tokens). length tokens - j)")
     (auto simp: nth_py_def split: if_splits)

fun local_scope :: "env \<Rightarrow> (string \<times> expr) list \<Rightarrow> env \<Rightarrow> error + env" where
  "local_scope syms [] scope = Inr scope"
| "local_scope syms ((param, arg_expr) # rest) scope =
     (case eval_expr syms arg_expr of
        Inl e \<Rightarrow> Inl e
      | Inr v \<Rightarrow> local_scope syms rest (scope(param \<mapsto> v)))"

text \<open>
  The \<^verbatim>\<open>CALL\<close> branch up to the lookup of the function: the header and the argument
  expressions. It returns the function's name, the arguments and the index \<open>j\<close> of the
  closing parenthesis.
\<close>

definition call_arguments :: "string list \<Rightarrow> nat \<Rightarrow> error + string \<times> expr list \<times> nat" where
  "call_arguments tokens i =
     (case nth_py tokens (i + 1) of Inl e \<Rightarrow> Inl e | Inr func_name \<Rightarrow>
     (case nth_py tokens (i + 2) of Inl e \<Rightarrow> Inl e | Inr t \<Rightarrow>
        if t \<noteq> ''('' then Inl ExpectedParenCALL
        else
     (case call_args tokens (i + 3) [] [] of Inl e \<Rightarrow> Inl e | Inr (args, arg_tokens, j) \<Rightarrow>
        if arg_tokens \<noteq> [] then
          (case parse_full_expression arg_tokens of
             Inl e \<Rightarrow> Inl e
           | Inr a \<Rightarrow> Inr (func_name, args @ [a], j))
        else Inr (func_name, args, j))))"

text \<open>
  The \<^verbatim>\<open>CALL\<close> branch up to the first change of a global: the arguments, the lookup of
  the function, the arity check and the local scope. It returns the function's body, the
  local scope and \<open>j\<close>.
\<close>

definition call_prepare :: "string list \<Rightarrow> nat \<Rightarrow> state \<Rightarrow> error + string list \<times> env \<times> nat" where
  "call_prepare tokens i s =
     (case call_arguments tokens i of Inl e \<Rightarrow> Inl e | Inr (func_name, args, j) \<Rightarrow>
     (case symbols s func_name of
        None \<Rightarrow> Inl (UndefinedFunction func_name)
      | Some NoneVal \<Rightarrow> Inl (UndefinedFunction func_name)
      | Some (Number _) \<Rightarrow> Inl TypeError
      | Some (Function params body) \<Rightarrow>
          if length args \<noteq> length params then
            Inl (ArityMismatch func_name (length params) (length args))
          else
            (case local_scope (symbols s) (zip params args) Map.empty of
               Inl e \<Rightarrow> Inl e
             | Inr scope \<Rightarrow> Inr (body, scope, j))))"

definition if_header :: "string list \<Rightarrow> nat \<Rightarrow> error + condition \<times> nat \<times> nat" where
  "if_header tokens i =
     (case parse_condition tokens (i + 1) of Inl e \<Rightarrow> Inl e | Inr (cond, new_i) \<Rightarrow>
     (case nth_py tokens new_i of Inl e \<Rightarrow> Inl e | Inr t \<Rightarrow>
        if t \<noteq> ''{'' then Inl ExpectedBraceIF
        else let block_start = new_i + 1 in
     (case find_block_end tokens block_start of Inl e \<Rightarrow> Inl e | Inr block_end \<Rightarrow>
        Inr (cond, block_start, block_end))))"

definition while_header :: "string list \<Rightarrow> nat \<Rightarrow> error + condition \<times> nat \<times> nat" where
  "while_header tokens i =
     (case parse_condition tokens (i + 1) of Inl e \<Rightarrow> Inl e | Inr (cond, new_i) \<Rightarrow>
     (case nth_py tokens new_i of Inl e \<Rightarrow> Inl e | Inr t \<Rightarrow>
        if t \<noteq> ''{'' then Inl ExpectedBraceWHILE
        else let block_start = new_i + 1 in
     (case find_block_end tokens block_start of Inl e \<Rightarrow> Inl e | Inr block_end \<Rightarrow>
        Inr (cond, block_start, block_end))))"

definition stmt_MOVE :: "string list \<Rightarrow> nat \<Rightarrow> state \<Rightarrow> error + nat \<times> state" where
  "stmt_MOVE tokens i s =
     (case parse_expression tokens (i + 1) {''Forward'', ''Backward''} of
        Inl e \<Rightarrow> Inl e | Inr (expr, new_i) \<Rightarrow>
     (case eval_expr (symbols s) expr of Inl e \<Rightarrow> Inl e | Inr distance \<Rightarrow>
     (case nth_py tokens new_i of Inl e \<Rightarrow> Inl e | Inr direction \<Rightarrow>
     (case move_cursor distance direction s of Inl e \<Rightarrow> Inl e | Inr s' \<Rightarrow>
        Inr (new_i + 1, s')))))"

definition stmt_TURN :: "string list \<Rightarrow> nat \<Rightarrow> state \<Rightarrow> error + nat \<times> state" where
  "stmt_TURN tokens i s =
     (case parse_expression tokens (i + 1) {''Right'', ''Left''} of
        Inl e \<Rightarrow> Inl e | Inr (expr, new_i) \<Rightarrow>
     (case eval_expr (symbols s) expr of Inl e \<Rightarrow> Inl e | Inr angle_val \<Rightarrow>
     (case nth_py tokens new_i of Inl e \<Rightarrow> Inl e | Inr direction \<Rightarrow>
        if direction = ''Right'' then
          (case angle_val of
             Number a \<Rightarrow>
               Inr (new_i + 1,
                    s\<lparr>cursor := (cursor s)\<lparr>cursor_angle := float_add (cursor_angle (cursor s)) a\<rparr>\<rparr>)
           | _ \<Rightarrow> Inl TypeError)
        else if direction = ''Left'' then
          (case angle_val of
             Number a \<Rightarrow>
               Inr (new_i + 1,
                    s\<lparr>cursor := (cursor s)\<lparr>cursor_angle := float_sub (cursor_angle (cursor s)) a\<rparr>\<rparr>)
           | _ \<Rightarrow> Inl TypeError)
        else Inr (new_i + 1, s))))"

definition stmt_DRAW :: "string list \<Rightarrow> nat \<Rightarrow> state \<Rightarrow> error + nat \<times> state" where
  "stmt_DRAW tokens i s =
     (case nth_py tokens (i + 1) of Inl e \<Rightarrow> Inl e | Inr shape \<Rightarrow>
     (case parse_expression tokens (i + 2)
             {''AT'', ''SET'', ''DEFINE'', ''CALL'', ''IF'', ''WHILE'', ''MOVE'', ''TURN'',
              ''DRAW'', ''COLOR'', ''}''} of
        Inl e \<Rightarrow> Inl e | Inr (expr, new_i) \<Rightarrow>
     (case eval_expr (symbols s) expr of Inl e \<Rightarrow> Inl e | Inr sz \<Rightarrow>
        if new_i < length tokens \<and> tokens ! new_i = ''AT'' then
          (case parse_expression tokens (new_i + 1) {'',''} of
             Inl e \<Rightarrow> Inl e | Inr (x_expr, i1) \<Rightarrow>
          (case eval_expr (symbols s) x_expr of Inl e \<Rightarrow> Inl e | Inr x_val \<Rightarrow>
          (case nth_py tokens i1 of Inl e \<Rightarrow> Inl e | Inr t \<Rightarrow>
             let i2 = (if t = '','' then i1 + 1 else i1) in
          (case parse_expression tokens i2 COMMAND_KEYWORDS of
             Inl e \<Rightarrow> Inl e | Inr (y_expr, i3) \<Rightarrow>
          (case eval_expr (symbols s) y_expr of Inl e \<Rightarrow> Inl e | Inr y_val \<Rightarrow>
          (case draw_shape shape sz x_val y_val s of Inl e \<Rightarrow> Inl e | Inr s' \<Rightarrow>
             Inr (i3, s')))))))
        else
          (case draw_shape shape sz NoneVal NoneVal s of Inl e \<Rightarrow> Inl e | Inr s' \<Rightarrow>
             Inr (new_i, s')))))"

definition stmt_COLOR :: "string list \<Rightarrow> nat \<Rightarrow> state \<Rightarrow> error + nat \<times> state" where
  "stmt_COLOR tokens i s =
     (case nth_py tokens (i + 1) of Inl e \<Rightarrow> Inl e | Inr color \<Rightarrow>
        if color = ''Random'' then
          Inr (i + 2,
               s\<lparr>cursor := (cursor s)\<lparr>cursor_color :=
                      map snd COLORS ! (rng s 0 mod length COLORS)\<rparr>,
                 rng := (\<lambda>n. rng s (Suc n))\<rparr>)
        else
          Inr (i + 2,
               s\<lparr>cursor := (cursor s)\<lparr>cursor_color :=
                      (case map_of COLORS color of None \<Rightarrow> (255, 255, 255) | Some c \<Rightarrow> c)\<rparr>\<rparr>))"

subsection \<open>The interpreter\<close>

text \<open>
  \<^verbatim>\<open>interpret\<close> may run forever (a \<^verbatim>\<open>WHILE\<close> whose condition stays true, a function
  that calls itself without end), so the model takes fuel: one unit for each statement
  and for each iteration of a \<^verbatim>\<open>WHILE\<close>, and a nested \<^verbatim>\<open>interpret\<close> gets what is left.
  \<open>Timeout\<close> says that the fuel did not suffice (the program runs forever, or deeper
  than the fuel allows). \<open>Raised e s\<close> is an exception that leaves \<^verbatim>\<open>interpret\<close>,
  with the globals as they are at that moment.

  \<open>interpret_from n tokens i\<close> is the loop \<^verbatim>\<open>while i < len(tokens)\<close> of \<^verbatim>\<open>interpret\<close> from
  index \<open>i\<close>; \<open>call_function\<close> is the \<^verbatim>\<open>CALL\<close> branch from the push of the snapshot
  to the restoration (lines 355 to 360); \<open>while_loop\<close> is the loop of the \<^verbatim>\<open>WHILE\<close>
  branch.
\<close>

datatype result = Timeout | Finished state | Raised error state

fun interpret_from :: "nat \<Rightarrow> string list \<Rightarrow> nat \<Rightarrow> state \<Rightarrow> result"
  and call_function :: "nat \<Rightarrow> string list \<Rightarrow> env \<Rightarrow> state \<Rightarrow> result"
  and while_loop :: "nat \<Rightarrow> condition \<Rightarrow> string list \<Rightarrow> state \<Rightarrow> result"
where
  "interpret_from 0 tokens i s = Timeout"
| "interpret_from (Suc n) tokens i s =
     (if i < length tokens then
        let token = tokens ! i in
        if token = ''SET'' then
          (case stmt_SET tokens i s of
             Inl e \<Rightarrow> Raised e s
           | Inr (i', s') \<Rightarrow> interpret_from n tokens i' s')
        else if token = ''DEFINE'' then
          (case stmt_DEFINE tokens i s of
             Inl e \<Rightarrow> Raised e s
           | Inr (i', s') \<Rightarrow> interpret_from n tokens i' s')
        else if token = ''CALL'' then
          (case call_prepare tokens i s of
             Inl e \<Rightarrow> Raised e s
           | Inr (body, scope, j) \<Rightarrow>
               (case call_function n body scope s of
                  Finished s' \<Rightarrow> interpret_from n tokens (j + 1) s'
                | r \<Rightarrow> r))
        else if token = ''IF'' then
          (case if_header tokens i of
             Inl e \<Rightarrow> Raised e s
           | Inr (cond, block_start, block_end) \<Rightarrow>
               (case eval_condition (symbols s) cond of
                  Inl e \<Rightarrow> Raised e s
                | Inr b \<Rightarrow>
                    if b then
                      (case interpret_from n (slice tokens block_start (block_end - 1)) 0 s of
                         Finished s' \<Rightarrow> interpret_from n tokens block_end s'
                       | r \<Rightarrow> r)
                    else interpret_from n tokens block_end s))
        else if token = ''WHILE'' then
          (case while_header tokens i of
             Inl e \<Rightarrow> Raised e s
           | Inr (cond, block_start, block_end) \<Rightarrow>
               (case while_loop n cond (slice tokens block_start (block_end - 1)) s of
                  Finished s' \<Rightarrow> interpret_from n tokens block_end s'
                | r \<Rightarrow> r))
        else if token = ''MOVE'' then
          (case stmt_MOVE tokens i s of
             Inl e \<Rightarrow> Raised e s
           | Inr (i', s') \<Rightarrow> interpret_from n tokens i' s')
        else if token = ''TURN'' then
          (case stmt_TURN tokens i s of
             Inl e \<Rightarrow> Raised e s
           | Inr (i', s') \<Rightarrow> interpret_from n tokens i' s')
        else if token = ''DRAW'' then
          (case stmt_DRAW tokens i s of
             Inl e \<Rightarrow> Raised e s
           | Inr (i', s') \<Rightarrow> interpret_from n tokens i' s')
        else if token = ''COLOR'' then
          (case stmt_COLOR tokens i s of
             Inl e \<Rightarrow> Raised e s
           | Inr (i', s') \<Rightarrow> interpret_from n tokens i' s')
        else interpret_from n tokens (i + 1) s
      else Finished s)"
| "call_function n body scope s =
     (let s1 = s\<lparr>call_stack := call_stack s @ [symbols s]\<rparr>;
          s2 = s1\<lparr>symbols := symbols s1 ++ scope\<rparr>
      in (case interpret_from n body 0 s2 of
            Finished s3 \<Rightarrow>
              if call_stack s3 = [] then Raised IndexError (s3\<lparr>symbols := Map.empty\<rparr>)
              else Finished (s3\<lparr>symbols := Map.empty ++ last (call_stack s3),
                                call_stack := butlast (call_stack s3)\<rparr>)
          | r \<Rightarrow> r))"
| "while_loop 0 cond body s = Timeout"
| "while_loop (Suc n) cond body s =
     (case eval_condition (symbols s) cond of
        Inl e \<Rightarrow> Raised e s
      | Inr b \<Rightarrow>
          if b then
            (case interpret_from n body 0 s of
               Finished s' \<Rightarrow> while_loop n cond body s'
             | r \<Rightarrow> r)
          else Finished s)"

text \<open>\<^verbatim>\<open>interpret(tokens)\<close>: the loop from index 0 (\<open>interpret\<close> is a keyword of Isabelle).\<close>

definition interpret_tokens :: "nat \<Rightarrow> string list \<Rightarrow> state \<Rightarrow> result" where
  "interpret_tokens n tokens s = interpret_from n tokens 0 s"

text \<open>Running a program text: \<^verbatim>\<open>interpret(tokenize(code))\<close>.\<close>

definition run :: "nat \<Rightarrow> string \<Rightarrow> state \<Rightarrow> result" where
  "run n code s = (case tokenize code of Inl e \<Rightarrow> Raised e s | Inr tokens \<Rightarrow> interpret_tokens n tokens s)"

text \<open>
  Parsing and evaluating an expression given as text: \<^verbatim>\<open>tokenize\<close>, then
  \<^verbatim>\<open>parse_full_expression\<close>, then \<^verbatim>\<open>eval_expr\<close>.
\<close>

definition evaluate :: "env \<Rightarrow> string \<Rightarrow> error + val" where
  "evaluate syms code =
     (case tokenize code of
        Inl e \<Rightarrow> Inl e
      | Inr tokens \<Rightarrow>
          (case parse_full_expression tokens of
             Inl e \<Rightarrow> Inl e
           | Inr expr \<Rightarrow> eval_expr syms expr))"

text \<open>The keywords that start a statement.\<close>

definition is_command :: "string \<Rightarrow> bool" where
  "is_command t = (t \<in> {''SET'', ''DEFINE'', ''CALL'', ''IF'', ''WHILE'', ''MOVE'', ''TURN'',
     ''DRAW'', ''COLOR''})"

text \<open>A random generator that always returns 0, for closed examples.\<close>

definition no_random :: "nat \<Rightarrow> nat" where
  "no_random n = 0"

text \<open>
  The spec's kinds of failure: the syntax errors are the exceptions that the parser and
  the statement headers raise themselves.
\<close>

fun is_syntax_error :: "error \<Rightarrow> bool" where
  "is_syntax_error IndexError = False"
| "is_syntax_error TypeError = False"
| "is_syntax_error ValueError = False"
| "is_syntax_error OverflowError = False"
| "is_syntax_error ZeroDivisionError = False"
| "is_syntax_error (UndefinedFunction f) = False"
| "is_syntax_error (ArityMismatch f n m) = False"
| "is_syntax_error e = True"

text \<open>
  The matching closing brace, in the spec's words. \<open>depth_before tokens start k\<close> is the
  nesting depth just before index \<open>k\<close> for a block whose opening brace stands just before
  \<open>start\<close>: 1, plus the opening braces and minus the closing braces in
  \<^verbatim>\<open>tokens[start:k]\<close>. The matching brace is at the first index \<open>k\<close> from \<open>start\<close> after
  which the depth is 0.
\<close>

definition depth_before :: "string list \<Rightarrow> nat \<Rightarrow> nat \<Rightarrow> int" where
  "depth_before tokens start k =
     1 + int (count_list (slice tokens start k) ''{'') - int (count_list (slice tokens start k) ''}'')"

definition matching_brace :: "string list \<Rightarrow> nat \<Rightarrow> nat \<Rightarrow> bool" where
  "matching_brace tokens start k =
     (start \<le> k \<and> k < length tokens \<and> depth_before tokens start (k + 1) = 0 \<and>
      (\<forall>j \<in> {start..k}. depth_before tokens start j > 0))"

text \<open>
  The spec's "the body runs exactly \<open>m\<close> times": \<open>while_iterations n cond body s m s'\<close>
  holds when, from \<open>s\<close>, the condition is true and the body (with fuel \<open>n\<close>) returns
  \<open>m\<close> times in a row, and the condition is false in the state \<open>s'\<close> reached then.
\<close>

inductive while_iterations ::
  "nat \<Rightarrow> condition \<Rightarrow> string list \<Rightarrow> state \<Rightarrow> nat \<Rightarrow> state \<Rightarrow> bool" where
  stop: "eval_condition (symbols s) cond = Inr False \<Longrightarrow> while_iterations n cond body s 0 s"
| iterate: "eval_condition (symbols s) cond = Inr True \<Longrightarrow>
     interpret_from n body 0 s = Finished s1 \<Longrightarrow>
     while_iterations n cond body s1 m s' \<Longrightarrow>
     while_iterations n cond body s (Suc m) s'"

text \<open>
  The tokenizer, in the spec's words. \<open>surround S code\<close> puts a space on both sides of
  every character of \<open>S\<close>, all at once; \<open>SEPARATED\<close> are the characters the spec lists.
  \<open>split_at p code\<close> cuts \<open>code\<close> at every character that satisfies \<open>p\<close>, so two cuts in a
  row leave an empty fragment; \<open>fragments\<close> cuts at whitespace and discards the empty
  fragments. \<open>merge_bang_eq\<close> replaces, from the left, every adjacent pair \<^verbatim>\<open>!\<close> \<^verbatim>\<open>=\<close> by
  \<^verbatim>\<open>!=\<close>.
\<close>

definition SEPARATED :: "char set" where
  "SEPARATED = set ''{}(),+-*/=><!''"

definition surround :: "char set \<Rightarrow> string \<Rightarrow> string" where
  "surround S code = concat (map (\<lambda>c. if c \<in> S then [CHR '' '', c, CHR '' ''] else [c]) code)"

fun split_at :: "('a \<Rightarrow> bool) \<Rightarrow> 'a list \<Rightarrow> 'a list list" where
  "split_at p [] = [[]]"
| "split_at p (c # cs) =
     (if p c then [] # split_at p cs
      else (c # hd (split_at p cs)) # tl (split_at p cs))"

definition fragments :: "string \<Rightarrow> string list" where
  "fragments code = filter (\<lambda>w. w \<noteq> []) (split_at is_space code)"

fun merge_bang_eq :: "string list \<Rightarrow> string list" where
  "merge_bang_eq (t # t' # ts) =
     (if t = ''!'' \<and> t' = ''='' then ''!='' # merge_bang_eq ts
      else t # merge_bang_eq (t' # ts))"
| "merge_bang_eq ts = ts"

section \<open>Properties\<close>

subsection \<open>Unfolding the interpreter, one branch at a time\<close>

declare interpret_from.simps [simp del] call_function.simps [simp del] while_loop.simps [simp del]
  combine.simps [simp del] find_block_end_loop.simps [simp del] define_params.simps [simp del]
  call_args.simps [simp del]

lemma interpret_from_end:
  "\<not> i < length tokens \<Longrightarrow> interpret_from (Suc n) tokens i s = Finished s"
  by (simp add: interpret_from.simps)

lemma interpret_from_SET:
  "i < length tokens \<Longrightarrow> tokens ! i = ''SET'' \<Longrightarrow>
   interpret_from (Suc n) tokens i s =
     (case stmt_SET tokens i s of
        Inl e \<Rightarrow> Raised e s
      | Inr (i', s') \<Rightarrow> interpret_from n tokens i' s')"
  by (simp add: interpret_from.simps)

lemma interpret_from_DEFINE:
  "i < length tokens \<Longrightarrow> tokens ! i = ''DEFINE'' \<Longrightarrow>
   interpret_from (Suc n) tokens i s =
     (case stmt_DEFINE tokens i s of
        Inl e \<Rightarrow> Raised e s
      | Inr (i', s') \<Rightarrow> interpret_from n tokens i' s')"
  by (simp add: interpret_from.simps)

lemma interpret_from_CALL:
  "i < length tokens \<Longrightarrow> tokens ! i = ''CALL'' \<Longrightarrow>
   interpret_from (Suc n) tokens i s =
     (case call_prepare tokens i s of
        Inl e \<Rightarrow> Raised e s
      | Inr (body, scope, j) \<Rightarrow>
          (case call_function n body scope s of
             Finished s' \<Rightarrow> interpret_from n tokens (j + 1) s'
           | r \<Rightarrow> r))"
  by (simp add: interpret_from.simps)

lemma interpret_from_IF:
  "i < length tokens \<Longrightarrow> tokens ! i = ''IF'' \<Longrightarrow>
   interpret_from (Suc n) tokens i s =
     (case if_header tokens i of
        Inl e \<Rightarrow> Raised e s
      | Inr (cond, block_start, block_end) \<Rightarrow>
          (case eval_condition (symbols s) cond of
             Inl e \<Rightarrow> Raised e s
           | Inr b \<Rightarrow>
               if b then
                 (case interpret_from n (slice tokens block_start (block_end - 1)) 0 s of
                    Finished s' \<Rightarrow> interpret_from n tokens block_end s'
                  | r \<Rightarrow> r)
               else interpret_from n tokens block_end s))"
  by (simp add: interpret_from.simps)

lemma interpret_from_WHILE:
  "i < length tokens \<Longrightarrow> tokens ! i = ''WHILE'' \<Longrightarrow>
   interpret_from (Suc n) tokens i s =
     (case while_header tokens i of
        Inl e \<Rightarrow> Raised e s
      | Inr (cond, block_start, block_end) \<Rightarrow>
          (case while_loop n cond (slice tokens block_start (block_end - 1)) s of
             Finished s' \<Rightarrow> interpret_from n tokens block_end s'
           | r \<Rightarrow> r))"
  by (simp add: interpret_from.simps)

lemma interpret_from_MOVE:
  "i < length tokens \<Longrightarrow> tokens ! i = ''MOVE'' \<Longrightarrow>
   interpret_from (Suc n) tokens i s =
     (case stmt_MOVE tokens i s of
        Inl e \<Rightarrow> Raised e s
      | Inr (i', s') \<Rightarrow> interpret_from n tokens i' s')"
  by (simp add: interpret_from.simps)

lemma interpret_from_TURN:
  "i < length tokens \<Longrightarrow> tokens ! i = ''TURN'' \<Longrightarrow>
   interpret_from (Suc n) tokens i s =
     (case stmt_TURN tokens i s of
        Inl e \<Rightarrow> Raised e s
      | Inr (i', s') \<Rightarrow> interpret_from n tokens i' s')"
  by (simp add: interpret_from.simps)

lemma interpret_from_DRAW:
  "i < length tokens \<Longrightarrow> tokens ! i = ''DRAW'' \<Longrightarrow>
   interpret_from (Suc n) tokens i s =
     (case stmt_DRAW tokens i s of
        Inl e \<Rightarrow> Raised e s
      | Inr (i', s') \<Rightarrow> interpret_from n tokens i' s')"
  by (simp add: interpret_from.simps)

lemma interpret_from_COLOR:
  "i < length tokens \<Longrightarrow> tokens ! i = ''COLOR'' \<Longrightarrow>
   interpret_from (Suc n) tokens i s =
     (case stmt_COLOR tokens i s of
        Inl e \<Rightarrow> Raised e s
      | Inr (i', s') \<Rightarrow> interpret_from n tokens i' s')"
  by (simp add: interpret_from.simps)

lemma interpret_from_skip:
  "i < length tokens \<Longrightarrow> \<not> is_command (tokens ! i) \<Longrightarrow>
   interpret_from (Suc n) tokens i s = interpret_from n tokens (i + 1) s"
  by (simp add: interpret_from.simps is_command_def)


subsection \<open>More fuel does not change a result\<close>

lemma command_cases:
  assumes "i < length tokens"
  obtains "tokens ! i = ''SET''" | "tokens ! i = ''DEFINE''" | "tokens ! i = ''CALL''"
    | "tokens ! i = ''IF''" | "tokens ! i = ''WHILE''" | "tokens ! i = ''MOVE''"
    | "tokens ! i = ''TURN''" | "tokens ! i = ''DRAW''" | "tokens ! i = ''COLOR''"
    | "\<not> is_command (tokens ! i)"
  unfolding is_command_def by blast

lemma fuel_step:
  "(\<forall>tokens i s. interpret_from n tokens i s \<noteq> Timeout \<longrightarrow>
      interpret_from (Suc n) tokens i s = interpret_from n tokens i s) \<and>
   (\<forall>body scope s. call_function n body scope s \<noteq> Timeout \<longrightarrow>
      call_function (Suc n) body scope s = call_function n body scope s) \<and>
   (\<forall>cond body s. while_loop n cond body s \<noteq> Timeout \<longrightarrow>
      while_loop (Suc n) cond body s = while_loop n cond body s)"
proof (induction n)
  case 0
  show ?case
    by (simp add: interpret_from.simps call_function.simps while_loop.simps Let_def)
next
  case (Suc n)
  have I: "\<And>tokens i s. interpret_from n tokens i s \<noteq> Timeout \<Longrightarrow>
      interpret_from (Suc n) tokens i s = interpret_from n tokens i s"
    and C: "\<And>body scope s. call_function n body scope s \<noteq> Timeout \<Longrightarrow>
      call_function (Suc n) body scope s = call_function n body scope s"
    and W: "\<And>cond body s. while_loop n cond body s \<noteq> Timeout \<Longrightarrow>
      while_loop (Suc n) cond body s = while_loop n cond body s"
    using Suc by blast+
  have simple: "(case r of Inl e \<Rightarrow> Raised e s | Inr (i', s') \<Rightarrow> interpret_from (Suc n) tokens i' s') =
      (case r of Inl e \<Rightarrow> Raised e s | Inr (i', s') \<Rightarrow> interpret_from n tokens i' s')"
    if "(case r of Inl e \<Rightarrow> Raised e s | Inr (i', s') \<Rightarrow> interpret_from n tokens i' s') \<noteq> Timeout"
    for r :: "error + nat \<times> state" and s tokens
    using that by (auto simp: I split: sum.splits)
  have I': "interpret_from (Suc (Suc n)) tokens i s = interpret_from (Suc n) tokens i s"
    if nt: "interpret_from (Suc n) tokens i s \<noteq> Timeout" for tokens i s
  proof (cases "i < length tokens")
    case False
    then show ?thesis by (simp add: interpret_from_end)
  next
    case True
    then show ?thesis
    proof (cases rule: command_cases)
      case 1
      with True nt show ?thesis by (simp add: interpret_from_SET simple)
    next
      case 2
      with True nt show ?thesis by (simp add: interpret_from_DEFINE simple)
    next
      case 3
      with True nt show ?thesis
        by (auto simp: interpret_from_CALL I C split: sum.splits result.splits)
    next
      case 4
      with True nt show ?thesis
        by (auto simp: interpret_from_IF I split: sum.splits result.splits)
    next
      case 5
      with True nt show ?thesis
        by (auto simp: interpret_from_WHILE I W split: sum.splits result.splits)
    next
      case 6
      with True nt show ?thesis by (simp add: interpret_from_MOVE simple)
    next
      case 7
      with True nt show ?thesis by (simp add: interpret_from_TURN simple)
    next
      case 8
      with True nt show ?thesis by (simp add: interpret_from_DRAW simple)
    next
      case 9
      with True nt show ?thesis by (simp add: interpret_from_COLOR simple)
    next
      case 10
      with True nt show ?thesis by (simp add: interpret_from_skip I)
    qed
  qed
  have C': "call_function (Suc (Suc n)) body scope s = call_function (Suc n) body scope s"
    if "call_function (Suc n) body scope s \<noteq> Timeout" for body scope s
    using that
    by (auto simp: call_function.simps Let_def I' split: result.splits)
  have W': "while_loop (Suc (Suc n)) cond body s = while_loop (Suc n) cond body s"
    if "while_loop (Suc n) cond body s \<noteq> Timeout" for cond body s
  proof -
    have e1: "while_loop (Suc (Suc n)) cond body s =
      (case eval_condition (symbols s) cond of
         Inl e \<Rightarrow> Raised e s
       | Inr b \<Rightarrow>
           if b then
             (case interpret_from (Suc n) body 0 s of
                Finished s' \<Rightarrow> while_loop (Suc n) cond body s'
              | r \<Rightarrow> r)
           else Finished s)"
      by (rule while_loop.simps)
    have e2: "while_loop (Suc n) cond body s =
      (case eval_condition (symbols s) cond of
         Inl e \<Rightarrow> Raised e s
       | Inr b \<Rightarrow>
           if b then
             (case interpret_from n body 0 s of
                Finished s' \<Rightarrow> while_loop n cond body s'
              | r \<Rightarrow> r)
           else Finished s)"
      by (rule while_loop.simps)
    from that have "(case eval_condition (symbols s) cond of
         Inl e \<Rightarrow> Raised e s
       | Inr b \<Rightarrow>
           if b then
             (case interpret_from n body 0 s of
                Finished s' \<Rightarrow> while_loop n cond body s'
              | r \<Rightarrow> r)
           else Finished s) \<noteq> Timeout"
      unfolding e2 .
    then show ?thesis
      unfolding e1 e2
      by (auto simp: I W split: sum.splits result.splits)
  qed
  from I' C' W' show ?case by blast
qed

lemma fuel_mono:
  "interpret_from n tokens i s \<noteq> Timeout \<Longrightarrow>
   interpret_from (n + k) tokens i s = interpret_from n tokens i s"
  "call_function n body scope s \<noteq> Timeout \<Longrightarrow>
   call_function (n + k) body scope s = call_function n body scope s"
  "while_loop n cond body s \<noteq> Timeout \<Longrightarrow>
   while_loop (n + k) cond body s = while_loop n cond body s"
proof -
  show "interpret_from n tokens i s \<noteq> Timeout \<Longrightarrow>
      interpret_from (n + k) tokens i s = interpret_from n tokens i s"
  proof (induction k)
    case 0
    then show ?case by simp
  next
    case (Suc k)
    then show ?case using fuel_step[of "n + k"] by simp
  qed
  show "call_function n body scope s \<noteq> Timeout \<Longrightarrow>
      call_function (n + k) body scope s = call_function n body scope s"
  proof (induction k)
    case 0
    then show ?case by simp
  next
    case (Suc k)
    then show ?case using fuel_step[of "n + k"] by simp
  qed
  show "while_loop n cond body s \<noteq> Timeout \<Longrightarrow>
      while_loop (n + k) cond body s = while_loop n cond body s"
  proof (induction k)
    case 0
    then show ?case by simp
  next
    case (Suc k)
    then show ?case using fuel_step[of "n + k"] by simp
  qed
qed



subsection \<open>The call stack is balanced\<close>

lemma move_cursor_frame:
  "move_cursor d dir s = Inr s' \<Longrightarrow> call_stack s' = call_stack s \<and> symbols s' = symbols s"
  by (auto simp: move_cursor_def Let_def split: if_splits val.splits sum.splits)

lemma draw_shape_frame:
  "draw_shape shape sz x y s = Inr s' \<Longrightarrow>
   call_stack s' = call_stack s \<and> symbols s' = symbols s \<and> cursor s' = cursor s"
  by (auto simp: draw_shape_def split: if_splits val.splits sum.splits)

lemma stmt_stack:
  "stmt_SET tokens i s = Inr (i', s') \<Longrightarrow> call_stack s' = call_stack s"
  "stmt_DEFINE tokens i s = Inr (i', s') \<Longrightarrow> call_stack s' = call_stack s"
  "stmt_MOVE tokens i s = Inr (i', s') \<Longrightarrow> call_stack s' = call_stack s"
  "stmt_TURN tokens i s = Inr (i', s') \<Longrightarrow> call_stack s' = call_stack s"
  "stmt_DRAW tokens i s = Inr (i', s') \<Longrightarrow> call_stack s' = call_stack s"
  "stmt_COLOR tokens i s = Inr (i', s') \<Longrightarrow> call_stack s' = call_stack s"
proof -
  show "stmt_SET tokens i s = Inr (i', s') \<Longrightarrow> call_stack s' = call_stack s"
    by (auto simp: stmt_SET_def split: sum.splits if_splits prod.splits)
  show "stmt_DEFINE tokens i s = Inr (i', s') \<Longrightarrow> call_stack s' = call_stack s"
    by (auto simp: stmt_DEFINE_def Let_def split: sum.splits if_splits prod.splits)
  show "stmt_MOVE tokens i s = Inr (i', s') \<Longrightarrow> call_stack s' = call_stack s"
    by (auto simp: stmt_MOVE_def split: sum.splits prod.splits dest: move_cursor_frame)
  show "stmt_TURN tokens i s = Inr (i', s') \<Longrightarrow> call_stack s' = call_stack s"
    by (auto simp: stmt_TURN_def split: sum.splits if_splits prod.splits val.splits)
  show "stmt_DRAW tokens i s = Inr (i', s') \<Longrightarrow> call_stack s' = call_stack s"
    by (auto simp: stmt_DRAW_def Let_def split: sum.splits if_splits prod.splits dest: draw_shape_frame)
  show "stmt_COLOR tokens i s = Inr (i', s') \<Longrightarrow> call_stack s' = call_stack s"
    by (auto simp: stmt_COLOR_def split: sum.splits if_splits)
qed

lemma simple_stack:
  assumes "(case r of Inl e \<Rightarrow> Raised e s | Inr (i', s1) \<Rightarrow> interpret_from n tokens i' s1) = Finished s'"
    and "\<And>i' s1. r = Inr (i', s1) \<Longrightarrow> call_stack s1 = call_stack s"
    and "\<And>tokens i s s'. interpret_from n tokens i s = Finished s' \<Longrightarrow> call_stack s' = call_stack s"
  shows "call_stack s' = call_stack s"
  using assms by (cases r) (auto split: prod.splits)

lemma stack_preserved_all:
  "(\<forall>tokens i s s'. interpret_from n tokens i s = Finished s' \<longrightarrow> call_stack s' = call_stack s) \<and>
   (\<forall>body scope s s'. call_function n body scope s = Finished s' \<longrightarrow>
      call_stack s' = call_stack s \<and> symbols s' = symbols s) \<and>
   (\<forall>cond body s s'. while_loop n cond body s = Finished s' \<longrightarrow> call_stack s' = call_stack s)"
proof (induction n)
  case 0
  show ?case
    by (simp add: interpret_from.simps call_function.simps while_loop.simps Let_def)
next
  case (Suc n)
  have I: "\<And>tokens i s s'. interpret_from n tokens i s = Finished s' \<Longrightarrow> call_stack s' = call_stack s"
    and C: "\<And>body scope s s'. call_function n body scope s = Finished s' \<Longrightarrow>
      call_stack s' = call_stack s"
    and W: "\<And>cond body s s'. while_loop n cond body s = Finished s' \<Longrightarrow> call_stack s' = call_stack s"
    using Suc by blast+
  have I': "call_stack s' = call_stack s"
    if fin: "interpret_from (Suc n) tokens i s = Finished s'" for tokens i s s'
  proof (cases "i < length tokens")
    case False
    with fin show ?thesis by (simp add: interpret_from_end)
  next
    case True
    then show ?thesis
    proof (cases rule: command_cases)
      case 1
      with True fin show ?thesis
        by (auto simp: interpret_from_SET intro: simple_stack stmt_stack I)
    next
      case 2
      with True fin show ?thesis
        by (auto simp: interpret_from_DEFINE intro: simple_stack stmt_stack I)
    next
      case 3
      with True fin show ?thesis
        by (auto simp: interpret_from_CALL split: sum.splits result.splits dest!: I C)
    next
      case 4
      with True fin show ?thesis
        by (auto simp: interpret_from_IF split: sum.splits result.splits if_splits dest!: I)
    next
      case 5
      with True fin show ?thesis
        by (auto simp: interpret_from_WHILE split: sum.splits result.splits dest!: I W)
    next
      case 6
      with True fin show ?thesis
        by (auto simp: interpret_from_MOVE intro: simple_stack stmt_stack I)
    next
      case 7
      with True fin show ?thesis
        by (auto simp: interpret_from_TURN intro: simple_stack stmt_stack I)
    next
      case 8
      with True fin show ?thesis
        by (auto simp: interpret_from_DRAW intro: simple_stack stmt_stack I)
    next
      case 9
      with True fin show ?thesis
        by (auto simp: interpret_from_COLOR intro: simple_stack stmt_stack I)
    next
      case 10
      with True fin show ?thesis by (auto simp: interpret_from_skip dest: I)
    qed
  qed
  have C': "call_stack s' = call_stack s \<and> symbols s' = symbols s"
    if "call_function (Suc n) body scope s = Finished s'" for body scope s s'
    using that
    by (auto simp: call_function.simps Let_def split: result.splits if_splits dest!: I')
  have W': "call_stack s' = call_stack s"
    if "while_loop (Suc n) cond body s = Finished s'" for cond body s s'
    using that
    by (auto simp: while_loop.simps split: sum.splits result.splits if_splits dest!: I W)
  from I' C' W' show ?case by blast
qed

subsection \<open>Floats that do not overflow\<close>

lemma float_limit_large: "10 ^ 6 < float_limit"
proof -
  have "(2::real) ^ 1024 = 2 ^ 970 * 2 ^ 54" by (simp add: power_add[symmetric])
  then have "float_limit = 2 ^ 970 * (2 ^ 54 - 1)" by (simp add: float_limit_def algebra_simps)
  moreover have "(1::real) \<le> 2 ^ 970" by simp
  moreover have "(10::real) ^ 6 < 2 ^ 54 - 1" by simp
  ultimately show ?thesis
    by (metis less_le_trans mult_le_cancel_right1 mult.commute less_imp_le not_less
        zero_less_numeral zero_less_power less_trans)
qed

lemma fl_Fin: "\<bar>r\<bar> < 10 ^ 6 \<Longrightarrow> fl r = Fin r"
  using float_limit_large by (auto simp: fl_def)

subsection \<open>Evaluation of concrete inputs\<close>

lemmas tokenize_simps = tokenize_def replace_ch_def split_def is_space_def nth_py_def combine.simps

lemmas parse_simps = parse_expression.simps parse_expression_loop.simps parse_term.simps
  parse_term_loop.simps parse_factor.simps parse_full_expression_def
  isdigit_def is_digit_ch_def float_py_def is_ascii_digit_def digits_value_def isalpha_def
  is_alpha_ch_def COMMAND_KEYWORDS_def fl_Fin float_sub_def

lemmas interpret_unfold = interpret_from_end interpret_from_SET interpret_from_DEFINE
  interpret_from_CALL interpret_from_IF interpret_from_WHILE interpret_from_MOVE
  interpret_from_TURN interpret_from_DRAW interpret_from_COLOR interpret_from_skip
  while_loop.simps(2)

lemmas interpret_unfold_numeral =
  interpret_unfold[where n = "pred_numeral v", folded numeral_eq_Suc] for v

lemmas interpret_simps = interpret_unfold interpret_unfold_numeral
  call_function.simps is_command_def
  stmt_SET_def stmt_DEFINE_def call_arguments_def call_prepare_def if_header_def while_header_def
  stmt_MOVE_def stmt_TURN_def stmt_DRAW_def stmt_COLOR_def
  define_params.simps call_args.simps find_block_end_def find_block_end_loop.simps
  parse_condition_def slice_def nth_py_def interpret_tokens_def

lemma run_more_fuel:
  "run n code s = r \<Longrightarrow> r \<noteq> Timeout \<Longrightarrow> run (n + k) code s = r"
  by (auto simp: run_def interpret_tokens_def fuel_mono split: sum.splits)

subsection \<open>Names in factor position\<close>

lemma isalpha_not_paren: "isalpha t \<Longrightarrow> t \<noteq> ''(''"
  by (auto simp: isalpha_def is_alpha_ch_def)

lemma alpha_not_digit: "is_alpha_ch c \<Longrightarrow> \<not> is_digit_ch c"
  by (auto simp: is_alpha_ch_def is_digit_ch_def Let_def)

lemma alpha_not_dot: "is_alpha_ch c \<Longrightarrow> c \<noteq> CHR ''.''"
  by (auto simp: is_alpha_ch_def)

lemma remove_first_dot_id: "CHR ''.'' \<notin> set t \<Longrightarrow> remove_first_dot t = t"
  by (induction t) auto

lemma isalpha_not_number: "isalpha t \<Longrightarrow> \<not> isdigit (remove_first_dot t)"
proof -
  assume a: "isalpha t"
  then have "CHR ''.'' \<notin> set t" using alpha_not_dot by (auto simp: isalpha_def)
  then have "remove_first_dot t = t" by (rule remove_first_dot_id)
  moreover from a obtain c where "c \<in> set t" "is_alpha_ch c"
    by (cases t) (auto simp: isalpha_def)
  ultimately show ?thesis using alpha_not_digit by (auto simp: isdigit_def)
qed

lemma parse_factor_name:
  "i < length tokens \<Longrightarrow> isalpha (tokens ! i) \<Longrightarrow> tokens ! i \<notin> stop \<Longrightarrow>
   parse_factor tokens i stop = Inr (Name (tokens ! i), i + 1)"
  by (simp add: parse_factor.simps isalpha_not_paren isalpha_not_number)

lemma op_not_alpha: "isalpha t \<Longrightarrow> t \<notin> {''+'', ''-'', ''*'', ''/''}"
  by (auto simp: isalpha_def is_alpha_ch_def)

lemma parse_three_names:
  assumes "isalpha a" "isalpha b" "isalpha c"
    and "op1 \<in> {''+'', ''-'', ''*'', ''/''}" "op2 \<in> {''+'', ''-'', ''*'', ''/''}"
  shows "parse_full_expression [a, op1, b, op2, c] =
     Inr (if op1 \<in> {''+'', ''-''} \<and> op2 \<in> {''*'', ''/''}
          then BinOp op1 (Name a) (BinOp op2 (Name b) (Name c))
          else BinOp op2 (BinOp op1 (Name a) (Name b)) (Name c))"
  using assms op_not_alpha[of a] op_not_alpha[of b] op_not_alpha[of c]
  apply (simp add: parse_full_expression_def parse_expression.simps parse_term.simps
      parse_factor_name)
  apply (elim disjE)
  apply (simp_all add: parse_expression_loop.simps parse_term_loop.simps parse_term.simps
      parse_factor_name)
  done

subsection \<open>The evaluator\<close>

lemma float_eq_zero: "float_eq b (Fin 0) = (b = Fin 0)"
  by (cases b) simp_all

lemma float_div_total: "b \<noteq> Fin 0 \<Longrightarrow> \<exists>q. float_div a b = Inr q"
  by (cases a; cases b) simp_all

text \<open>
  C3 (as amended). A division node whose right operand evaluates to 0 evaluates to 0,
  whatever the left operand evaluates to, and raises nothing; for example \<^verbatim>\<open>5 / 0\<close> is 0.
  On two floats division raises nothing (on finite ones it is the quotient, or an infinity
  when the quotient overflows). When the divisor is not 0 and an operand is a function
  definition or \<^verbatim>\<open>None\<close>, the division raises \<^verbatim>\<open>TypeError\<close>.
\<close>

theorem division_by_zero_is_zero:
  "(\<forall>syms l r vl. eval_expr syms l = Inr vl \<and> eval_expr syms r = Inr (Number (Fin 0)) \<longrightarrow>
      eval_expr syms (BinOp ''/'' l r) = Inr (Number (Fin 0))) \<and>
   (\<forall>syms l r a b. eval_expr syms l = Inr (Number a) \<and> eval_expr syms r = Inr (Number b) \<longrightarrow>
      (\<exists>q. eval_expr syms (BinOp ''/'' l r) = Inr (Number q))) \<and>
   (\<forall>syms l r x y. eval_expr syms l = Inr (Number (Fin x)) \<and>
      eval_expr syms r = Inr (Number (Fin y)) \<longrightarrow>
      eval_expr syms (BinOp ''/'' l r) = Inr (Number (if y = 0 then Fin 0 else fl (x / y)))) \<and>
   (\<forall>syms l r vl vr. eval_expr syms l = Inr vl \<and> eval_expr syms r = Inr vr \<and>
      \<not> py_eq vr (Number (Fin 0)) \<and> ((\<forall>a. vl \<noteq> Number a) \<or> (\<forall>b. vr \<noteq> Number b)) \<longrightarrow>
      eval_expr syms (BinOp ''/'' l r) = Inl TypeError) \<and>
   (\<forall>syms. evaluate syms ''5 / 0'' = Inr (Number (Fin 0)))"
proof (intro conjI allI impI)
  fix syms l r vl
  assume "eval_expr syms l = Inr vl \<and> eval_expr syms r = Inr (Number (Fin 0))"
  then show "eval_expr syms (BinOp ''/'' l r) = Inr (Number (Fin 0))" by simp
next
  fix syms l r a b
  assume a: "eval_expr syms l = Inr (Number a) \<and> eval_expr syms r = Inr (Number b)"
  show "\<exists>q. eval_expr syms (BinOp ''/'' l r) = Inr (Number q)"
  proof (cases "b = Fin 0")
    case True
    with a show ?thesis by simp
  next
    case False
    then obtain q where "float_div a b = Inr q" using float_div_total by blast
    with a False show ?thesis by (simp add: float_eq_zero)
  qed
next
  fix syms l r x y
  assume "eval_expr syms l = Inr (Number (Fin x)) \<and> eval_expr syms r = Inr (Number (Fin y))"
  then show "eval_expr syms (BinOp ''/'' l r) =
      Inr (Number (if y = 0 then Fin 0 else fl (x / y)))"
    by simp
next
  fix syms l r vl vr
  assume a: "eval_expr syms l = Inr vl \<and> eval_expr syms r = Inr vr \<and>
      \<not> py_eq vr (Number (Fin 0)) \<and> ((\<forall>a. vl \<noteq> Number a) \<or> (\<forall>b. vr \<noteq> Number b))"
  then have "py_truediv vl vr = Inl TypeError"
    by (cases vl; cases vr) auto
  with a show "eval_expr syms (BinOp ''/'' l r) = Inl TypeError" by simp
next
  fix syms
  have "tokenize ''5 / 0'' = Inr [''5'', ''/'', ''0'']"
    by (simp add: tokenize_simps)
  moreover have "parse_full_expression [''5'', ''/'', ''0''] =
      Inr (BinOp ''/'' (Num (Fin 5)) (Num (Fin 0)))"
    by (simp add: parse_simps)
  ultimately show "evaluate syms ''5 / 0'' = Inr (Number (Fin 0))"
    by (simp add: evaluate_def)
qed

theorem division_by_zero_is_zero_witness:
  "eval_expr Map.empty (BinOp ''/'' (Name ''f'') (BinOp ''-'' (Num (Fin 3)) (Num (Fin 3)))) =
     Inr (Number (Fin 0)) \<and>
   eval_expr Map.empty (BinOp ''/'' (Num (Fin 7)) (Num (Fin 2))) = Inr (Number (Fin (7 / 2))) \<and>
   eval_expr Map.empty (BinOp ''/'' (Num PInf) (Num PInf)) = Inr (Number NaN) \<and>
   eval_expr [''f'' \<mapsto> Function [] []] (BinOp ''/'' (Num (Fin 1)) (Name ''f'')) = Inl TypeError"
proof -
  have c1: "\<forall>syms l r vl. eval_expr syms l = Inr vl \<and> eval_expr syms r = Inr (Number (Fin 0)) \<longrightarrow>
      eval_expr syms (BinOp ''/'' l r) = Inr (Number (Fin 0))"
    using division_by_zero_is_zero by (rule conjunct1)
  have c2: "\<forall>syms l r a b. eval_expr syms l = Inr (Number a) \<and> eval_expr syms r = Inr (Number b) \<longrightarrow>
      (\<exists>q. eval_expr syms (BinOp ''/'' l r) = Inr (Number q))"
    using division_by_zero_is_zero by (rule conjunct2[THEN conjunct1])
  have c3: "\<forall>syms l r x y. eval_expr syms l = Inr (Number (Fin x)) \<and>
      eval_expr syms r = Inr (Number (Fin y)) \<longrightarrow>
      eval_expr syms (BinOp ''/'' l r) = Inr (Number (if y = 0 then Fin 0 else fl (x / y)))"
    using division_by_zero_is_zero by (rule conjunct2[THEN conjunct2, THEN conjunct1])
  have c4: "\<forall>syms l r vl vr. eval_expr syms l = Inr vl \<and> eval_expr syms r = Inr vr \<and>
      \<not> py_eq vr (Number (Fin 0)) \<and> ((\<forall>a. vl \<noteq> Number a) \<or> (\<forall>b. vr \<noteq> Number b)) \<longrightarrow>
      eval_expr syms (BinOp ''/'' l r) = Inl TypeError"
    using division_by_zero_is_zero by (rule conjunct2[THEN conjunct2, THEN conjunct2, THEN conjunct1])
  have 1: "eval_expr Map.empty (BinOp ''/'' (Name ''f'') (BinOp ''-'' (Num (Fin 3)) (Num (Fin 3)))) =
     Inr (Number (Fin 0))"
    by (rule c1[rule_format, of Map.empty "Name ''f''" "Number (Fin 0)"])
       (simp add: float_sub_def fl_Fin)
  have "eval_expr Map.empty (BinOp ''/'' (Num (Fin 7)) (Num (Fin 2))) =
     Inr (Number (if (2::real) = 0 then Fin 0 else fl (7 / 2)))"
    by (rule c3[rule_format, of Map.empty "Num (Fin 7)" 7 "Num (Fin 2)" 2]) simp
  then have 2: "eval_expr Map.empty (BinOp ''/'' (Num (Fin 7)) (Num (Fin 2))) =
     Inr (Number (Fin (7 / 2)))"
    by (simp add: fl_Fin)
  have "\<exists>q. eval_expr Map.empty (BinOp ''/'' (Num PInf) (Num PInf)) = Inr (Number q)"
    by (rule c2[rule_format, of Map.empty "Num PInf" PInf "Num PInf" PInf]) simp
  then have 3: "eval_expr Map.empty (BinOp ''/'' (Num PInf) (Num PInf)) = Inr (Number NaN)"
    by simp
  have 4: "eval_expr [''f'' \<mapsto> Function [] []] (BinOp ''/'' (Num (Fin 1)) (Name ''f'')) = Inl TypeError"
    by (rule c4[rule_format, of "[''f'' \<mapsto> Function [] []]" "Num (Fin 1)" "Number (Fin 1)"
          "Name ''f''" "Function [] []"]) simp
  from 1 2 3 4 show ?thesis by (intro conjI)
qed

text \<open>
  C3 as stated fails in "division is an error-free total operation of the evaluator":
  \<^verbatim>\<open>f / 2\<close>, with \<open>f\<close> bound to a function definition, raises \<^verbatim>\<open>TypeError\<close>.
\<close>

theorem division_of_a_function_raises:
  "eval_expr [''f'' \<mapsto> Function [''a''] [''MOVE'', ''a'', ''Forward'']]
     (BinOp ''/'' (Name ''f'') (Num (Fin 2))) = Inl TypeError"
  by simp

subsection \<open>The expression parser\<close>

text \<open>
  C4. \<^verbatim>\<open>*\<close> and \<^verbatim>\<open>/\<close> bind tighter than \<^verbatim>\<open>+\<close> and \<^verbatim>\<open>-\<close>, and both levels associate to
  the left: \<^verbatim>\<open>2 + 3 * 4\<close> is 14, \<^verbatim>\<open>( 2 + 3 ) * 4\<close> is 20 and \<^verbatim>\<open>10 - 3 - 2\<close> is 5; and for
  names \<open>a\<close>, \<open>b\<close>, \<open>c\<close> and operators \<open>op1\<close>, \<open>op2\<close>, the tree of \<open>a op1 b op2 c\<close> is
  \<open>a op1 (b op2 c)\<close> when \<open>op1\<close> is additive and \<open>op2\<close> multiplicative, and
  \<open>(a op1 b) op2 c\<close> otherwise.
\<close>

theorem precedence_and_left_associativity:
  "(\<forall>syms. evaluate syms ''2 + 3 * 4'' = Inr (Number (Fin 14))) \<and>
   (\<forall>syms. evaluate syms ''( 2 + 3 ) * 4'' = Inr (Number (Fin 20))) \<and>
   (\<forall>syms. evaluate syms ''10 - 3 - 2'' = Inr (Number (Fin 5))) \<and>
   (\<forall>a b c op1 op2.
      isalpha a \<and> isalpha b \<and> isalpha c \<and>
      op1 \<in> {''+'', ''-'', ''*'', ''/''} \<and> op2 \<in> {''+'', ''-'', ''*'', ''/''} \<longrightarrow>
      parse_full_expression [a, op1, b, op2, c] =
        Inr (if op1 \<in> {''+'', ''-''} \<and> op2 \<in> {''*'', ''/''}
             then BinOp op1 (Name a) (BinOp op2 (Name b) (Name c))
             else BinOp op2 (BinOp op1 (Name a) (Name b)) (Name c)))"
proof (intro conjI allI impI)
  fix syms
  have "tokenize ''2 + 3 * 4'' = Inr [''2'', ''+'', ''3'', ''*'', ''4'']"
    by (simp add: tokenize_simps)
  moreover have "parse_full_expression [''2'', ''+'', ''3'', ''*'', ''4''] =
      Inr (BinOp ''+'' (Num (Fin 2)) (BinOp ''*'' (Num (Fin 3)) (Num (Fin 4))))"
    by (simp add: parse_simps)
  ultimately show "evaluate syms ''2 + 3 * 4'' = Inr (Number (Fin 14))"
    by (simp add: evaluate_def fl_Fin float_sub_def)
next
  fix syms
  have "tokenize ''( 2 + 3 ) * 4'' = Inr [''('', ''2'', ''+'', ''3'', '')'', ''*'', ''4'']"
    by (simp add: tokenize_simps)
  moreover have "parse_full_expression [''('', ''2'', ''+'', ''3'', '')'', ''*'', ''4''] =
      Inr (BinOp ''*'' (BinOp ''+'' (Num (Fin 2)) (Num (Fin 3))) (Num (Fin 4)))"
    by (simp add: parse_simps)
  ultimately show "evaluate syms ''( 2 + 3 ) * 4'' = Inr (Number (Fin 20))"
    by (simp add: evaluate_def fl_Fin float_sub_def)
next
  fix syms
  have "tokenize ''10 - 3 - 2'' = Inr [''10'', ''-'', ''3'', ''-'', ''2'']"
    by (simp add: tokenize_simps)
  moreover have "parse_full_expression [''10'', ''-'', ''3'', ''-'', ''2''] =
      Inr (BinOp ''-'' (BinOp ''-'' (Num (Fin 10)) (Num (Fin 3))) (Num (Fin 2)))"
    by (simp add: parse_simps)
  ultimately show "evaluate syms ''10 - 3 - 2'' = Inr (Number (Fin 5))"
    by (simp add: evaluate_def fl_Fin float_sub_def)
next
  fix a b c op1 op2 :: string
  assume "isalpha a \<and> isalpha b \<and> isalpha c \<and>
      op1 \<in> {''+'', ''-'', ''*'', ''/''} \<and> op2 \<in> {''+'', ''-'', ''*'', ''/''}"
  then show "parse_full_expression [a, op1, b, op2, c] =
        Inr (if op1 \<in> {''+'', ''-''} \<and> op2 \<in> {''*'', ''/''}
             then BinOp op1 (Name a) (BinOp op2 (Name b) (Name c))
             else BinOp op2 (BinOp op1 (Name a) (Name b)) (Name c))"
    using parse_three_names by blast
qed

theorem precedence_and_left_associativity_witness:
  "parse_full_expression [''x'', ''-'', ''y'', ''-'', ''z''] =
     Inr (BinOp ''-'' (BinOp ''-'' (Name ''x'') (Name ''y'')) (Name ''z'')) \<and>
   parse_full_expression [''x'', ''+'', ''y'', ''/'', ''z''] =
     Inr (BinOp ''+'' (Name ''x'') (BinOp ''/'' (Name ''y'') (Name ''z'')))"
proof -
  have a: "isalpha ''x''" "isalpha ''y''" "isalpha ''z''"
    by (simp_all add: isalpha_def is_alpha_ch_def)
  have g: "\<And>a b c op1 op2.
      isalpha a \<and> isalpha b \<and> isalpha c \<and>
      op1 \<in> {''+'', ''-'', ''*'', ''/''} \<and> op2 \<in> {''+'', ''-'', ''*'', ''/''} \<Longrightarrow>
      parse_full_expression [a, op1, b, op2, c] =
        Inr (if op1 \<in> {''+'', ''-''} \<and> op2 \<in> {''*'', ''/''}
             then BinOp op1 (Name a) (BinOp op2 (Name b) (Name c))
             else BinOp op2 (BinOp op1 (Name a) (Name b)) (Name c))"
    using precedence_and_left_associativity by blast
  show ?thesis
    using g[of "''x''" "''y''" "''z''" "''-''" "''-''"] g[of "''x''" "''y''" "''z''" "''+''" "''/''"] a
    by simp
qed

subsection \<open>Function calls\<close>

lemma call_test_tokens:
  "tokenize ''SET x = 1 DEFINE f ( x ) { SET x = 99 } CALL f ( 5 )'' =
   Inr [''SET'', ''x'', ''='', ''1'', ''DEFINE'', ''f'', ''('', ''x'', '')'', ''{'',
        ''SET'', ''x'', ''='', ''99'', ''}'', ''CALL'', ''f'', ''('', ''5'', '')'']"
  by (simp add: tokenize_simps)

lemma call_test_run:
  "interpret_tokens 5 [''SET'', ''x'', ''='', ''1'', ''DEFINE'', ''f'', ''('', ''x'', '')'', ''{'',
        ''SET'', ''x'', ''='', ''99'', ''}'', ''CALL'', ''f'', ''('', ''5'', '')''] s =
   Finished (s\<lparr>symbols := (symbols s)(''x'' \<mapsto> Number (Fin 1),
      ''f'' \<mapsto> Function [''x''] [''SET'', ''x'', ''='', ''99''])\<rparr>)"
  by (simp add: interpret_simps parse_simps Let_def)

text \<open>
  C1 (as amended). When the body of a called function has been interpreted, the
  environment and the call stack are those of the caller just before the call, and the
  rest of the program runs from there; nothing that the body stores survives, also not a
  \<^verbatim>\<open>SET\<close> of a name that is a parameter. After \<^verbatim>\<open>SET x = 1\<close>,
  \<^verbatim>\<open>DEFINE f ( x ) { SET x = 99 }\<close>, \<^verbatim>\<open>CALL f ( 5 )\<close> the environment maps \<open>x\<close> to 1.
\<close>

theorem call_restores_environment:
  "(\<forall>n body scope s s'. call_function n body scope s = Finished s' \<longrightarrow>
      symbols s' = symbols s \<and> call_stack s' = call_stack s) \<and>
   (\<forall>n tokens i s body scope j s''.
      i < length tokens \<and> tokens ! i = ''CALL'' \<and> call_prepare tokens i s = Inr (body, scope, j) \<and>
      interpret_from (Suc n) tokens i s = Finished s'' \<longrightarrow>
      (\<exists>s'. call_function n body scope s = Finished s' \<and> symbols s' = symbols s \<and>
            interpret_from n tokens (j + 1) s' = Finished s'')) \<and>
   (\<forall>s k. run (5 + k) ''SET x = 1 DEFINE f ( x ) { SET x = 99 } CALL f ( 5 )'' s =
      Finished (s\<lparr>symbols := (symbols s)(''x'' \<mapsto> Number (Fin 1),
         ''f'' \<mapsto> Function [''x''] [''SET'', ''x'', ''='', ''99''])\<rparr>))"
proof (intro conjI allI impI)
  fix n body scope s s'
  assume "call_function n body scope s = Finished s'"
  then show "symbols s' = symbols s" "call_stack s' = call_stack s"
    using stack_preserved_all[of n] by blast+
next
  fix n tokens i s body scope j s''
  assume a: "i < length tokens \<and> tokens ! i = ''CALL'' \<and>
      call_prepare tokens i s = Inr (body, scope, j) \<and>
      interpret_from (Suc n) tokens i s = Finished s''"
  then obtain s' where c: "call_function n body scope s = Finished s'"
    and r: "interpret_from n tokens (j + 1) s' = Finished s''"
    by (auto simp: interpret_from_CALL split: result.splits)
  from c have "symbols s' = symbols s" using stack_preserved_all[of n] by blast
  with c r show "\<exists>s'. call_function n body scope s = Finished s' \<and> symbols s' = symbols s \<and>
            interpret_from n tokens (j + 1) s' = Finished s''"
    by blast
next
  fix s k
  have "run 5 ''SET x = 1 DEFINE f ( x ) { SET x = 99 } CALL f ( 5 )'' s =
      Finished (s\<lparr>symbols := (symbols s)(''x'' \<mapsto> Number (Fin 1),
         ''f'' \<mapsto> Function [''x''] [''SET'', ''x'', ''='', ''99''])\<rparr>)"
    by (simp add: run_def call_test_tokens call_test_run)
  then show "run (5 + k) ''SET x = 1 DEFINE f ( x ) { SET x = 99 } CALL f ( 5 )'' s =
      Finished (s\<lparr>symbols := (symbols s)(''x'' \<mapsto> Number (Fin 1),
         ''f'' \<mapsto> Function [''x''] [''SET'', ''x'', ''='', ''99''])\<rparr>)"
    by (rule run_more_fuel) simp
qed

theorem call_restores_environment_witness:
  "call_function 2 [''SET'', ''x'', ''='', ''99''] [''x'' \<mapsto> Number (Fin 5)]
     ((initial_state no_random)\<lparr>symbols := [''x'' \<mapsto> Number (Fin 1)]\<rparr>) =
   Finished ((initial_state no_random)\<lparr>symbols := [''x'' \<mapsto> Number (Fin 1)]\<rparr>)"
proof -
  let ?s = "(initial_state no_random)\<lparr>symbols := [''x'' \<mapsto> Number (Fin 1)]\<rparr>"
  have "call_function 2 [''SET'', ''x'', ''='', ''99''] [''x'' \<mapsto> Number (Fin 5)] ?s =
      Finished (?s\<lparr>symbols := Map.empty ++ [''x'' \<mapsto> Number (Fin 1)], call_stack := []\<rparr>)"
    by (simp add: interpret_simps parse_simps Let_def initial_state_def)
  moreover from this call_restores_environment
  have "symbols (?s\<lparr>symbols := Map.empty ++ [''x'' \<mapsto> Number (Fin 1)], call_stack := []\<rparr>) = symbols ?s \<and>
        call_stack (?s\<lparr>symbols := Map.empty ++ [''x'' \<mapsto> Number (Fin 1)], call_stack := []\<rparr>) = call_stack ?s"
    by blast
  ultimately show ?thesis by (simp add: initial_state_def)
qed

text \<open>
  C1 as stated fails in its exception: in the spec's own test the body's \<^verbatim>\<open>SET x = 99\<close>
  is against the parameter \<open>x\<close>; it does set \<open>x\<close> to 99 during the call, and after the
  call \<open>x\<close> is 1, not 99.
\<close>

theorem set_on_parameter_does_not_survive:
  "(case run 5 ''SET x = 1 DEFINE f ( x ) { SET x = 99 } CALL f ( 5 )'' (initial_state no_random) of
      Finished s' \<Rightarrow> symbols s' ''x'' = Some (Number (Fin 1)) \<and> symbols s' ''x'' \<noteq> Some (Number (Fin 99))
    | _ \<Rightarrow> False) \<and>
   interpret_tokens 2 [''SET'', ''x'', ''='', ''99'']
     ((initial_state no_random)\<lparr>symbols := [''x'' \<mapsto> Number (Fin 5)]\<rparr>) =
   Finished ((initial_state no_random)\<lparr>symbols := [''x'' \<mapsto> Number (Fin 99)]\<rparr>)"
  by (simp add: run_def call_test_tokens call_test_run)
     (simp add: interpret_simps parse_simps Let_def)

lemma arity_tokens:
  "tokenize ''DEFINE f ( a , b ) { MOVE a Forward } CALL f ( 1 ) MOVE 10 Forward'' =
   Inr [''DEFINE'', ''f'', ''('', ''a'', '','', ''b'', '')'', ''{'', ''MOVE'', ''a'', ''Forward'', ''}'',
        ''CALL'', ''f'', ''('', ''1'', '')'', ''MOVE'', ''10'', ''Forward'']"
  by (simp add: tokenize_simps)

lemma arity_call_arguments:
  "call_arguments [''DEFINE'', ''f'', ''('', ''a'', '','', ''b'', '')'', ''{'', ''MOVE'', ''a'', ''Forward'', ''}'',
        ''CALL'', ''f'', ''('', ''1'', '')'', ''MOVE'', ''10'', ''Forward''] 12 = Inr (''f'', [Num (Fin 1)], 16)"
  by (simp add: call_arguments_def call_args.simps nth_py_def parse_simps)

lemma arity_define:
  "interpret_from (Suc n) [''DEFINE'', ''f'', ''('', ''a'', '','', ''b'', '')'', ''{'', ''MOVE'', ''a'', ''Forward'', ''}'',
        ''CALL'', ''f'', ''('', ''1'', '')'', ''MOVE'', ''10'', ''Forward''] 0 (s::state) =
   interpret_from n [''DEFINE'', ''f'', ''('', ''a'', '','', ''b'', '')'', ''{'', ''MOVE'', ''a'', ''Forward'', ''}'',
        ''CALL'', ''f'', ''('', ''1'', '')'', ''MOVE'', ''10'', ''Forward''] 12
     (s\<lparr>symbols := (symbols s)(''f'' \<mapsto> Function [''a'', ''b''] [''MOVE'', ''a'', ''Forward''])\<rparr>)"
  by (simp add: interpret_from_DEFINE stmt_DEFINE_def define_params.simps find_block_end_def
      find_block_end_loop.simps nth_py_def slice_def Let_def)

text \<open>
  C5. A \<^verbatim>\<open>CALL\<close> whose argument count differs from the parameter count of the function
  bound to the name raises the arity error, and a \<^verbatim>\<open>CALL\<close> of a name that the
  environment does not bind raises an error (the undefined-function error when the
  arguments parse). The state at the exception is the state before the call: the
  environment, the call stack, the cursor and the screen are unchanged. One unit of fuel
  suffices, so the body is not interpreted.
\<close>

theorem arity_mismatch_is_fatal:
  "(\<forall>n tokens i s name args j params body.
      i < length tokens \<and> tokens ! i = ''CALL'' \<and> call_arguments tokens i = Inr (name, args, j) \<and>
      symbols s name = Some (Function params body) \<and> length args \<noteq> length params \<longrightarrow>
      interpret_from (Suc n) tokens i s = Raised (ArityMismatch name (length params) (length args)) s) \<and>
   (\<forall>n tokens i s name args j.
      i < length tokens \<and> tokens ! i = ''CALL'' \<and> call_arguments tokens i = Inr (name, args, j) \<and>
      symbols s name = None \<longrightarrow>
      interpret_from (Suc n) tokens i s = Raised (UndefinedFunction name) s) \<and>
   (\<forall>n tokens i s name.
      i < length tokens \<and> tokens ! i = ''CALL'' \<and> nth_py tokens (i + 1) = Inr name \<and>
      symbols s name = None \<longrightarrow>
      (\<exists>e. interpret_from (Suc n) tokens i s = Raised e s))"
proof (intro conjI allI impI)
  fix n tokens i and s :: state and name args j params body
  assume "i < length tokens \<and> tokens ! i = ''CALL'' \<and> call_arguments tokens i = Inr (name, args, j) \<and>
      symbols s name = Some (Function params body) \<and> length args \<noteq> length params"
  then show "interpret_from (Suc n) tokens i s =
      Raised (ArityMismatch name (length params) (length args)) s"
    by (simp add: interpret_from_CALL call_prepare_def)
next
  fix n tokens i and s :: state and name args j
  assume "i < length tokens \<and> tokens ! i = ''CALL'' \<and> call_arguments tokens i = Inr (name, args, j) \<and>
      symbols s name = None"
  then show "interpret_from (Suc n) tokens i s = Raised (UndefinedFunction name) s"
    by (simp add: interpret_from_CALL call_prepare_def)
next
  fix n tokens i and s :: state and name
  assume a: "i < length tokens \<and> tokens ! i = ''CALL'' \<and> nth_py tokens (i + 1) = Inr name \<and>
      symbols s name = None"
  show "\<exists>e. interpret_from (Suc n) tokens i s = Raised e s"
  proof (cases "call_arguments tokens i")
    case (Inl e)
    with a show ?thesis by (simp add: interpret_from_CALL call_prepare_def)
  next
    case (Inr r)
    obtain name' args j where r: "r = (name', args, j)" by (cases r)
    with Inr a have "name' = name"
      by (auto simp: call_arguments_def split: sum.splits if_splits prod.splits)
    with Inr r a show ?thesis by (simp add: interpret_from_CALL call_prepare_def)
  qed
qed


lemma arity_run:
  "run 2 ''DEFINE f ( a , b ) { MOVE a Forward } CALL f ( 1 ) MOVE 10 Forward'' s =
   interpret_from 1 [''DEFINE'', ''f'', ''('', ''a'', '','', ''b'', '')'', ''{'', ''MOVE'', ''a'', ''Forward'', ''}'',
        ''CALL'', ''f'', ''('', ''1'', '')'', ''MOVE'', ''10'', ''Forward''] 12
     (s\<lparr>symbols := (symbols s)(''f'' \<mapsto> Function [''a'', ''b''] [''MOVE'', ''a'', ''Forward''])\<rparr>)"
proof -
  have "interpret_from (Suc (Suc 0)) [''DEFINE'', ''f'', ''('', ''a'', '','', ''b'', '')'', ''{'', ''MOVE'', ''a'', ''Forward'', ''}'',
        ''CALL'', ''f'', ''('', ''1'', '')'', ''MOVE'', ''10'', ''Forward''] 0 s =
     interpret_from (Suc 0) [''DEFINE'', ''f'', ''('', ''a'', '','', ''b'', '')'', ''{'', ''MOVE'', ''a'', ''Forward'', ''}'',
        ''CALL'', ''f'', ''('', ''1'', '')'', ''MOVE'', ''10'', ''Forward''] 12
     (s\<lparr>symbols := (symbols s)(''f'' \<mapsto> Function [''a'', ''b''] [''MOVE'', ''a'', ''Forward''])\<rparr>)"
    by (rule arity_define)
  moreover have "(2::nat) = Suc (Suc 0)" "(1::nat) = Suc 0" by simp_all
  ultimately show ?thesis
    by (simp only: run_def arity_tokens interpret_tokens_def sum.case)
qed


theorem arity_mismatch_is_fatal_witness:
  "interpret_from 1 [''DEFINE'', ''f'', ''('', ''a'', '','', ''b'', '')'', ''{'', ''MOVE'', ''a'', ''Forward'', ''}'',
        ''CALL'', ''f'', ''('', ''1'', '')'', ''MOVE'', ''10'', ''Forward''] 12
     ((initial_state no_random)\<lparr>symbols := [''f'' \<mapsto> Function [''a'', ''b''] [''MOVE'', ''a'', ''Forward'']]\<rparr>) =
   Raised (ArityMismatch ''f'' 2 1)
     ((initial_state no_random)\<lparr>symbols := [''f'' \<mapsto> Function [''a'', ''b''] [''MOVE'', ''a'', ''Forward'']]\<rparr>) \<and>
   run 2 ''DEFINE f ( a , b ) { MOVE a Forward } CALL f ( 1 ) MOVE 10 Forward'' (initial_state no_random) =
   Raised (ArityMismatch ''f'' 2 1)
     ((initial_state no_random)\<lparr>symbols := [''f'' \<mapsto> Function [''a'', ''b''] [''MOVE'', ''a'', ''Forward'']]\<rparr>) \<and>
   screen ((initial_state no_random)\<lparr>symbols := [''f'' \<mapsto> Function [''a'', ''b''] [''MOVE'', ''a'', ''Forward'']]\<rparr>) = []"
proof -
  define tokens where "tokens = [''DEFINE'', ''f'', ''('', ''a'', '','', ''b'', '')'', ''{'', ''MOVE'', ''a'', ''Forward'', ''}'',
        ''CALL'', ''f'', ''('', ''1'', '')'', ''MOVE'', ''10'', ''Forward'']"
  define s where "s = (initial_state no_random)\<lparr>symbols := [''f'' \<mapsto> Function [''a'', ''b''] [''MOVE'', ''a'', ''Forward'']]\<rparr>"
  have h1: "(12::nat) < length tokens" and h2: "tokens ! 12 = ''CALL''"
    by (simp_all add: tokens_def)
  have h3: "call_arguments tokens 12 = Inr (''f'', [Num (Fin 1)], 16)"
    unfolding tokens_def by (rule arity_call_arguments)
  have h4: "symbols s ''f'' = Some (Function [''a'', ''b''] [''MOVE'', ''a'', ''Forward''])"
    by (simp add: s_def)
  have h5: "length [Num (Fin 1)] \<noteq> length [''a'', ''b'']" by simp
  have 1: "interpret_from (Suc 0) tokens 12 s =
      Raised (ArityMismatch ''f'' (length [''a'', ''b'']) (length [Num (Fin 1)])) s"
  proof -
    from arity_mismatch_is_fatal
    have "\<forall>n tokens i s name args j params body.
      i < length tokens \<and> tokens ! i = ''CALL'' \<and> call_arguments tokens i = Inr (name, args, j) \<and>
      symbols s name = Some (Function params body) \<and> length args \<noteq> length params \<longrightarrow>
      interpret_from (Suc n) tokens i s = Raised (ArityMismatch name (length params) (length args)) s"
      by (rule conjunct1)
    then have "12 < length tokens \<and> tokens ! 12 = ''CALL'' \<and>
        call_arguments tokens 12 = Inr (''f'', [Num (Fin 1)], 16) \<and>
        symbols s ''f'' = Some (Function [''a'', ''b''] [''MOVE'', ''a'', ''Forward'']) \<and>
        length [Num (Fin 1)] \<noteq> length [''a'', ''b''] \<longrightarrow>
        interpret_from (Suc 0) tokens 12 s =
          Raised (ArityMismatch ''f'' (length [''a'', ''b'']) (length [Num (Fin 1)])) s"
      by (elim allE)
    with h1 h2 h3 h4 h5 show ?thesis by (elim impE) (intro conjI)
  qed
  have 2: "run 2 ''DEFINE f ( a , b ) { MOVE a Forward } CALL f ( 1 ) MOVE 10 Forward''
      (initial_state no_random) = interpret_from 1 tokens 12 s"
  proof -
    have "s = (initial_state no_random)\<lparr>symbols := (symbols (initial_state no_random))(''f'' \<mapsto> Function [''a'', ''b''] [''MOVE'', ''a'', ''Forward''])\<rparr>"
      by (simp add: s_def initial_state_def)
    then show ?thesis unfolding tokens_def by (simp only: arity_run)
  qed
  have 3: "screen s = []" by (simp add: s_def initial_state_def)
  from 1 2 3 have "interpret_from 1 tokens 12 s = Raised (ArityMismatch ''f'' 2 1) s \<and>
    run 2 ''DEFINE f ( a , b ) { MOVE a Forward } CALL f ( 1 ) MOVE 10 Forward'' (initial_state no_random) = Raised (ArityMismatch ''f'' 2 1) s \<and> screen s = []"
    by simp
  then show ?thesis unfolding tokens_def s_def .
qed

subsection \<open>Statement headers\<close>

lemma header_error_when_token_present:
  "i + 2 < length tokens \<Longrightarrow> tokens ! i = ''SET'' \<Longrightarrow> tokens ! (i + 2) \<noteq> ''='' \<Longrightarrow>
   interpret_from (Suc n) tokens i s = Raised ExpectedEqSET s"
  "i + 2 < length tokens \<Longrightarrow> tokens ! i = ''DEFINE'' \<Longrightarrow> tokens ! (i + 2) \<noteq> ''('' \<Longrightarrow>
   interpret_from (Suc n) tokens i s = Raised ExpectedParenDEFINE s"
  "i + 2 < length tokens \<Longrightarrow> tokens ! i = ''DEFINE'' \<Longrightarrow> tokens ! (i + 2) = ''('' \<Longrightarrow>
   define_params tokens (i + 3) [] = Inr (params, j) \<Longrightarrow> j + 1 < length tokens \<Longrightarrow>
   tokens ! (j + 1) \<noteq> ''{'' \<Longrightarrow>
   interpret_from (Suc n) tokens i s = Raised ExpectedBraceDEFINE s"
  "i + 2 < length tokens \<Longrightarrow> tokens ! i = ''CALL'' \<Longrightarrow> tokens ! (i + 2) \<noteq> ''('' \<Longrightarrow>
   interpret_from (Suc n) tokens i s = Raised ExpectedParenCALL s"
  "i < length tokens \<Longrightarrow> tokens ! i = ''IF'' \<Longrightarrow> parse_condition tokens (i + 1) = Inr (cond, new_i) \<Longrightarrow>
   new_i < length tokens \<Longrightarrow> tokens ! new_i \<noteq> ''{'' \<Longrightarrow>
   interpret_from (Suc n) tokens i s = Raised ExpectedBraceIF s"
  "i < length tokens \<Longrightarrow> tokens ! i = ''WHILE'' \<Longrightarrow> parse_condition tokens (i + 1) = Inr (cond, new_i) \<Longrightarrow>
   new_i < length tokens \<Longrightarrow> tokens ! new_i \<noteq> ''{'' \<Longrightarrow>
   interpret_from (Suc n) tokens i s = Raised ExpectedBraceWHILE s"
  by (simp_all add: interpret_from_SET interpret_from_DEFINE interpret_from_CALL interpret_from_IF
      interpret_from_WHILE stmt_SET_def stmt_DEFINE_def call_prepare_def call_arguments_def
      if_header_def while_header_def nth_py_def)

text \<open>
  C7. A statement header that is cut off by the end of the program is not rejected with
  one of the interpreter's own syntax errors: the read of the missing token raises
  \<^verbatim>\<open>IndexError\<close>. (\<open>header_error_when_token_present\<close> is the other half: when the
  offending token is there, the syntax error of the statement is raised.)
\<close>

theorem truncated_header_raises_index_error:
  "run (Suc n) ''SET x'' s = Raised IndexError s \<and>
   run (Suc n) ''DEFINE f'' s = Raised IndexError s \<and>
   run (Suc n) ''DEFINE f ( a )'' s = Raised IndexError s \<and>
   run (Suc n) ''CALL f'' s = Raised IndexError s \<and>
   run (Suc n) ''IF a < b'' s = Raised IndexError s \<and>
   run (Suc n) ''WHILE a < b'' s = Raised IndexError s \<and>
   \<not> is_syntax_error IndexError"
proof (intro conjI)
  have "tokenize ''SET x'' = Inr [''SET'', ''x'']" by (simp add: tokenize_simps)
  then show "run (Suc n) ''SET x'' s = Raised IndexError s"
    by (simp add: run_def interpret_tokens_def interpret_from_SET stmt_SET_def nth_py_def)
  have "tokenize ''DEFINE f'' = Inr [''DEFINE'', ''f'']" by (simp add: tokenize_simps)
  then show "run (Suc n) ''DEFINE f'' s = Raised IndexError s"
    by (simp add: run_def interpret_tokens_def interpret_from_DEFINE stmt_DEFINE_def nth_py_def)
  have "tokenize ''DEFINE f ( a )'' = Inr [''DEFINE'', ''f'', ''('', ''a'', '')'']"
    by (simp add: tokenize_simps)
  then show "run (Suc n) ''DEFINE f ( a )'' s = Raised IndexError s"
    by (simp add: run_def interpret_tokens_def interpret_from_DEFINE stmt_DEFINE_def nth_py_def
        define_params.simps)
  have "tokenize ''CALL f'' = Inr [''CALL'', ''f'']" by (simp add: tokenize_simps)
  then show "run (Suc n) ''CALL f'' s = Raised IndexError s"
    by (simp add: run_def interpret_tokens_def interpret_from_CALL call_prepare_def
        call_arguments_def nth_py_def)
  have "tokenize ''IF a < b'' = Inr [''IF'', ''a'', ''<'', ''b'']" by (simp add: tokenize_simps)
  then show "run (Suc n) ''IF a < b'' s = Raised IndexError s"
    by (simp add: run_def interpret_tokens_def interpret_from_IF if_header_def
        parse_condition_def parse_simps nth_py_def)
  have "tokenize ''WHILE a < b'' = Inr [''WHILE'', ''a'', ''<'', ''b'']"
    by (simp add: tokenize_simps)
  then show "run (Suc n) ''WHILE a < b'' s = Raised IndexError s"
    by (simp add: run_def interpret_tokens_def interpret_from_WHILE while_header_def
        parse_condition_def parse_simps nth_py_def)
  show "\<not> is_syntax_error IndexError" by simp
qed

subsection \<open>The block matcher\<close>


lemma slice_snoc:
  "start \<le> i \<Longrightarrow> i < length tokens \<Longrightarrow> slice tokens start (Suc i) = slice tokens start i @ [tokens ! i]"
proof -
  assume a: "start \<le> i" "i < length tokens"
  then have "Suc i - start = Suc (i - start)" by simp
  moreover from a have "i - start < length (drop start tokens)" by simp
  ultimately have "take (Suc i - start) (drop start tokens) =
      take (i - start) (drop start tokens) @ [drop start tokens ! (i - start)]"
    by (simp add: take_Suc_conv_app_nth)
  with a show ?thesis by (simp add: slice_def)
qed

lemma depth_before_start: "depth_before tokens start start = 1"
  by (simp add: depth_before_def slice_def)

lemma depth_before_step:
  "start \<le> i \<Longrightarrow> i < length tokens \<Longrightarrow>
   depth_before tokens start (Suc i) =
     depth_before tokens start i +
       (if tokens ! i = ''{'' then 1 else if tokens ! i = ''}'' then - 1 else 0)"
  by (simp add: depth_before_def slice_snoc)

lemma matching_brace_unique_at:
  assumes inv: "\<forall>j \<in> {start..i}. depth_before tokens start j > 0"
    and z: "depth_before tokens start (i + 1) = 0"
    and m: "matching_brace tokens start k"
  shows "k = i"
proof (rule ccontr)
  assume "k \<noteq> i"
  then consider "k < i" | "i < k" by arith
  then show False
  proof cases
    case 1
    with m have "k + 1 \<in> {start..i}" by (simp add: matching_brace_def)
    with inv have "depth_before tokens start (k + 1) > 0" by blast
    with m show False by (simp add: matching_brace_def)
  next
    case 2
    from m have "start \<le> k" by (simp add: matching_brace_def)
    have "start \<le> i + 1"
    proof (rule ccontr)
      assume "\<not> start \<le> i + 1"
      then have "slice tokens start (i + 1) = []" by (simp add: slice_def)
      then have "depth_before tokens start (i + 1) = 1" by (simp add: depth_before_def)
      with z show False by simp
    qed
    with 2 have "i + 1 \<in> {start..k}" by simp
    with m have "depth_before tokens start (i + 1) > 0" by (simp add: matching_brace_def)
    with z show False by simp
  qed
qed

lemma find_block_end_loop_stop:
  "\<not> (i < length tokens \<and> depth > 0) \<Longrightarrow> find_block_end_loop tokens i depth = Inr i"
  by (subst find_block_end_loop.simps) auto

lemma find_block_end_loop_step:
  "i < length tokens \<Longrightarrow> depth > 0 \<Longrightarrow>
   find_block_end_loop tokens i depth =
     find_block_end_loop tokens (Suc i)
       (depth + (if tokens ! i = ''{'' then 1 else if tokens ! i = ''}'' then - 1 else 0))"
  by (subst find_block_end_loop.simps) (simp add: nth_py_def)


lemma find_block_end_loop_char:
  "start \<le> i \<Longrightarrow> i \<le> length tokens \<Longrightarrow> d = depth_before tokens start i \<Longrightarrow>
   \<forall>j \<in> {start..i}. depth_before tokens start j > 0 \<Longrightarrow>
   (\<forall>k. matching_brace tokens start k \<longrightarrow> find_block_end_loop tokens i d = Inr (k + 1)) \<and>
   ((\<forall>k. \<not> matching_brace tokens start k) \<longrightarrow> find_block_end_loop tokens i d = Inr (length tokens))"
proof (induction "length tokens - i" arbitrary: i d)
  case 0
  then have il: "i = length tokens" by simp
  have nomatch: "\<not> matching_brace tokens start k" for k
  proof
    assume m: "matching_brace tokens start k"
    then have "k + 1 \<in> {start..i}" using il by (simp add: matching_brace_def)
    with "0.prems"(4) have "depth_before tokens start (k + 1) > 0" by blast
    with m show False by (simp add: matching_brace_def)
  qed
  have "find_block_end_loop tokens i d = Inr i"
    using il by (simp add: find_block_end_loop_stop)
  with nomatch il show ?case by simp
next
  case (Suc n)
  then have lt: "i < length tokens" by simp
  from Suc.prems have dpos: "d > 0" by simp
  define d' where "d' = d + (if tokens ! i = ''{'' then 1 else if tokens ! i = ''}'' then - 1 else 0)"
  have step: "find_block_end_loop tokens i d = find_block_end_loop tokens (Suc i) d'"
    unfolding d'_def using lt dpos by (rule find_block_end_loop_step)
  have d'eq: "d' = depth_before tokens start (Suc i)"
    using Suc.prems(1,3) lt by (simp add: d'_def depth_before_step)
  show ?case
  proof (cases "d' > 0")
    case False
    have "d' \<ge> 0" using dpos by (simp add: d'_def)
    with False have z: "d' = 0" by simp
    have r: "find_block_end_loop tokens (Suc i) d' = Inr (Suc i)"
      using z by (simp add: find_block_end_loop_stop)
    have mi: "matching_brace tokens start i"
      using Suc.prems(1,4) lt z d'eq by (simp add: matching_brace_def)
    have z': "depth_before tokens start (i + 1) = 0" using z d'eq by simp
    have uq: "k = i" if "matching_brace tokens start k" for k
      using Suc.prems(4) z' that by (rule matching_brace_unique_at)
    have res: "find_block_end_loop tokens i d = Inr (Suc i)" unfolding step by (rule r)
    show ?thesis
    proof (intro conjI allI impI)
      fix k assume "matching_brace tokens start k"
      then have "k = i" by (rule uq)
      with res show "find_block_end_loop tokens i d = Inr (k + 1)" by simp
    next
      assume "\<forall>k. \<not> matching_brace tokens start k"
      with mi show "find_block_end_loop tokens i d = Inr (length tokens)" by blast
    qed
  next
    case True
    have inv': "\<forall>j \<in> {start..Suc i}. depth_before tokens start j > 0"
    proof
      fix j assume "j \<in> {start..Suc i}"
      then consider "j \<in> {start..i}" | "j = Suc i" by force
      then show "depth_before tokens start j > 0"
        using Suc.prems(4) True d'eq by cases auto
    qed
    have "n = length tokens - Suc i" using Suc.hyps(2) by simp
    moreover have "start \<le> Suc i" "Suc i \<le> length tokens" using Suc.prems(1) lt by simp_all
    ultimately have "(\<forall>k. matching_brace tokens start k \<longrightarrow>
          find_block_end_loop tokens (Suc i) d' = Inr (k + 1)) \<and>
        ((\<forall>k. \<not> matching_brace tokens start k) \<longrightarrow>
          find_block_end_loop tokens (Suc i) d' = Inr (length tokens))"
      using d'eq inv' by (rule Suc.hyps(1))
    then show ?thesis unfolding step .
  qed
qed

lemma find_block_end_char:
  assumes "start \<le> length tokens"
  shows "matching_brace tokens start k \<Longrightarrow> find_block_end tokens start = Inr (k + 1)"
    and "\<forall>k. \<not> matching_brace tokens start k \<Longrightarrow> find_block_end tokens start = Inr (length tokens)"
proof -
  have inv: "\<forall>j \<in> {start..start}. depth_before tokens start j > 0"
    by (simp add: depth_before_start)
  have e: "(1::int) = depth_before tokens start start" by (simp add: depth_before_start)
  have c: "(\<forall>k. matching_brace tokens start k \<longrightarrow> find_block_end_loop tokens start 1 = Inr (k + 1)) \<and>
   ((\<forall>k. \<not> matching_brace tokens start k) \<longrightarrow> find_block_end_loop tokens start 1 = Inr (length tokens))"
    using order_refl assms e inv by (rule find_block_end_loop_char)
  from c show "matching_brace tokens start k \<Longrightarrow> find_block_end tokens start = Inr (k + 1)"
    by (simp add: find_block_end_def)
  from c show "\<forall>k. \<not> matching_brace tokens start k \<Longrightarrow> find_block_end tokens start = Inr (length tokens)"
    by (simp add: find_block_end_def)
qed









subsection \<open>The WHILE loop\<close>

lemma while_iterations_more_fuel:
  "while_iterations n cond body s m s' \<Longrightarrow> while_iterations (Suc n) cond body s m s'"
proof (induction rule: while_iterations.induct)
  case (stop s cond n body)
  then show ?case by (rule while_iterations.stop)
next
  case (iterate s cond n body s1 m s')
  from iterate.hyps(2) have "interpret_from (Suc n) body 0 s = Finished s1"
    using fuel_step[of n] by simp
  with iterate show ?case by (blast intro: while_iterations.iterate)
qed

lemma while_loop_sound:
  "while_iterations n cond body s m s' \<Longrightarrow> while_loop (Suc (n + m)) cond body s = Finished s'"
proof (induction rule: while_iterations.induct)
  case (stop s cond n body)
  then show ?case by (simp add: while_loop.simps)
next
  case (iterate s cond n body s1 m s')
  from iterate.hyps(2) have "interpret_from (n + Suc m) body 0 s = Finished s1"
    using fuel_mono(1)[of n body 0 s "Suc m"] by simp
  with iterate show ?case by (simp add: while_loop.simps)
qed

lemma while_loop_complete:
  "while_loop n cond body s = Finished s' \<Longrightarrow>
   eval_condition (symbols s') cond = Inr False \<and> (\<exists>m. while_iterations n cond body s m s')"
proof (induction n arbitrary: s)
  case 0
  then show ?case by (simp add: while_loop.simps)
next
  case (Suc n)
  show ?case
  proof (cases "eval_condition (symbols s) cond")
    case (Inl e)
    with Suc.prems show ?thesis by (simp add: while_loop.simps)
  next
    case (Inr b)
    show ?thesis
    proof (cases b)
      case False
      with Inr Suc.prems have "s' = s" by (simp add: while_loop.simps)
      with Inr False show ?thesis by (auto intro: while_iterations.stop)
    next
      case True
      with Inr Suc.prems obtain s1 where b: "interpret_from n body 0 s = Finished s1"
        and w: "while_loop n cond body s1 = Finished s'"
        by (auto simp: while_loop.simps split: result.splits)
      from Suc.IH[OF w] obtain m where c: "eval_condition (symbols s') cond = Inr False"
        and i: "while_iterations n cond body s1 m s'" by blast
      from b have "interpret_from (Suc n) body 0 s = Finished s1" using fuel_step[of n] by simp
      moreover from i have "while_iterations (Suc n) cond body s1 m s'"
        by (rule while_iterations_more_fuel)
      ultimately have "while_iterations (Suc n) cond body s (Suc m) s'"
        using Inr True by (auto intro: while_iterations.iterate)
      with c show ?thesis by blast
    qed
  qed
qed

lemma while_iterations_unique:
  "while_iterations n cond body s m s' \<Longrightarrow> while_iterations n cond body s m' s'' \<Longrightarrow>
   m = m' \<and> s' = s''"
proof (induction arbitrary: m' s'' rule: while_iterations.induct)
  case (stop s cond n body)
  from stop.prems stop.hyps show ?case by (cases rule: while_iterations.cases) auto
next
  case (iterate s cond n body s1 m s')
  from iterate.prems iterate.hyps(1,2) obtain k where "m' = Suc k"
    and "while_iterations n cond body s1 k s''"
    by (cases rule: while_iterations.cases) auto
  with iterate.IH show ?case by blast
qed


lemma count_tokens:
  "tokenize ''SET i = 0 WHILE i < 5 { SET i = i + 1 }'' =
   Inr [''SET'', ''i'', ''='', ''0'', ''WHILE'', ''i'', ''<'', ''5'', ''{'',
        ''SET'', ''i'', ''='', ''i'', ''+'', ''1'', ''}'']"
  by (simp add: tokenize_simps)

lemma count_header:
  "while_header [''SET'', ''i'', ''='', ''0'', ''WHILE'', ''i'', ''<'', ''5'', ''{'',
        ''SET'', ''i'', ''='', ''i'', ''+'', ''1'', ''}''] 4 =
     Inr (Condition (Name ''i'') ''<'' (Num (Fin 5)), 9, 16) \<and>
   slice [''SET'', ''i'', ''='', ''0'', ''WHILE'', ''i'', ''<'', ''5'', ''{'',
        ''SET'', ''i'', ''='', ''i'', ''+'', ''1'', ''}''] 9 (16 - 1) =
     [''SET'', ''i'', ''='', ''i'', ''+'', ''1'']"
  by (simp add: while_header_def parse_condition_def find_block_end_def find_block_end_loop.simps
      nth_py_def parse_simps slice_def)

lemma count_run:
  "interpret_tokens 9 [''SET'', ''i'', ''='', ''0'', ''WHILE'', ''i'', ''<'', ''5'', ''{'',
      ''SET'', ''i'', ''='', ''i'', ''+'', ''1'', ''}''] s =
   Finished (s\<lparr>symbols := (symbols s)(''i'' \<mapsto> Number (Fin 5))\<rparr>)"
  by (simp add: interpret_simps parse_simps Let_def)

lemma count_body:
  "\<bar>v + 1\<bar> < 10 ^ 6 \<Longrightarrow>
   interpret_from 2 [''SET'', ''i'', ''='', ''i'', ''+'', ''1''] 0
     (s\<lparr>symbols := (symbols s)(''i'' \<mapsto> Number (Fin v))\<rparr>) =
   Finished (s\<lparr>symbols := (symbols s)(''i'' \<mapsto> Number (Fin (v + 1)))\<rparr>)"
  by (simp add: interpret_simps parse_simps Let_def)

lemma count_cond:
  "eval_condition (symbols (s\<lparr>symbols := (symbols s)(''i'' \<mapsto> Number (Fin v))\<rparr>))
     (Condition (Name ''i'') ''<'' (Num (Fin 5))) = Inr (v < 5)"
  by simp

lemma count_iterate:
  assumes "v < 5" and "\<bar>v + 1\<bar> < 10 ^ 6"
    and "while_iterations 2 (Condition (Name ''i'') ''<'' (Num (Fin 5)))
       [''SET'', ''i'', ''='', ''i'', ''+'', ''1'']
       (s\<lparr>symbols := (symbols s)(''i'' \<mapsto> Number (Fin (v + 1)))\<rparr>) m s'"
  shows "while_iterations 2 (Condition (Name ''i'') ''<'' (Num (Fin 5)))
       [''SET'', ''i'', ''='', ''i'', ''+'', ''1'']
       (s\<lparr>symbols := (symbols s)(''i'' \<mapsto> Number (Fin v))\<rparr>) (Suc m) s'"
proof (rule while_iterations.iterate)
  show "eval_condition (symbols (s\<lparr>symbols := (symbols s)(''i'' \<mapsto> Number (Fin v))\<rparr>))
     (Condition (Name ''i'') ''<'' (Num (Fin 5))) = Inr True"
    using assms(1) by (simp only: count_cond simp_thms)
  show "interpret_from 2 [''SET'', ''i'', ''='', ''i'', ''+'', ''1''] 0
     (s\<lparr>symbols := (symbols s)(''i'' \<mapsto> Number (Fin v))\<rparr>) =
     Finished (s\<lparr>symbols := (symbols s)(''i'' \<mapsto> Number (Fin (v + 1)))\<rparr>)"
    using assms(2) by (rule count_body)
  show "while_iterations 2 (Condition (Name ''i'') ''<'' (Num (Fin 5)))
       [''SET'', ''i'', ''='', ''i'', ''+'', ''1'']
       (s\<lparr>symbols := (symbols s)(''i'' \<mapsto> Number (Fin (v + 1)))\<rparr>) m s'"
    by (rule assms(3))
qed

lemma count_five:
  "while_iterations 2 (Condition (Name ''i'') ''<'' (Num (Fin 5)))
     [''SET'', ''i'', ''='', ''i'', ''+'', ''1'']
     (s\<lparr>symbols := (symbols s)(''i'' \<mapsto> Number (Fin 0))\<rparr>) 5
     (s\<lparr>symbols := (symbols s)(''i'' \<mapsto> Number (Fin 5))\<rparr>)"
proof -
  let ?W = "while_iterations 2 (Condition (Name ''i'') ''<'' (Num (Fin 5)))
     [''SET'', ''i'', ''='', ''i'', ''+'', ''1'']"
  let ?st = "\<lambda>v. s\<lparr>symbols := (symbols s)(''i'' \<mapsto> Number (Fin v))\<rparr>"
  have 5: "?W (?st 5) 0 (?st 5)"
    by (rule while_iterations.stop) simp
  have 4: "?W (?st 4) (Suc 0) (?st 5)"
    using count_iterate[of 4 s 0 "?st 5"] 5 by simp
  have 3: "?W (?st 3) (Suc (Suc 0)) (?st 5)"
    using count_iterate[of 3 s "Suc 0" "?st 5"] 4 by simp
  have 2: "?W (?st 2) (Suc (Suc (Suc 0))) (?st 5)"
    using count_iterate[of 2 s "Suc (Suc 0)" "?st 5"] 3 by simp
  have 1: "?W (?st 1) (Suc (Suc (Suc (Suc 0)))) (?st 5)"
    using count_iterate[of 1 s "Suc (Suc (Suc 0))" "?st 5"] 2 by simp
  have 0: "?W (?st 0) (Suc (Suc (Suc (Suc (Suc 0))))) (?st 5)"
    using count_iterate[of 0 s "Suc (Suc (Suc (Suc 0)))" "?st 5"] 1 by simp
  have e: "Suc (Suc (Suc (Suc (Suc 0)))) = 5" by simp
  from 0 show ?thesis unfolding e .
qed

lemma count_then_tokens:
  "tokenize ''SET i = 0 WHILE i < 5 { SET i = i + 1 } SET j = 7'' =
   Inr [''SET'', ''i'', ''='', ''0'', ''WHILE'', ''i'', ''<'', ''5'', ''{'',
        ''SET'', ''i'', ''='', ''i'', ''+'', ''1'', ''}'', ''SET'', ''j'', ''='', ''7'']"
  by (simp add: tokenize_simps)

lemma count_then_run:
  "interpret_tokens 9 [''SET'', ''i'', ''='', ''0'', ''WHILE'', ''i'', ''<'', ''5'', ''{'',
      ''SET'', ''i'', ''='', ''i'', ''+'', ''1'', ''}'', ''SET'', ''j'', ''='', ''7''] s =
   Finished (s\<lparr>symbols := (symbols s)(''i'' \<mapsto> Number (Fin 5), ''j'' \<mapsto> Number (Fin 7))\<rparr>)"
  by (simp add: interpret_simps parse_simps Let_def)

lemma while_statement:
  assumes "i < length tokens" and "tokens ! i = ''WHILE''"
    and "parse_condition tokens (i + 1) = Inr (cond, new_i)"
    and "nth_py tokens new_i = Inr ''{''"
    and "matching_brace tokens (new_i + 1) k"
  shows "interpret_from (Suc n) tokens i s =
     (case while_loop n cond (slice tokens (new_i + 1) k) s of
        Finished s' \<Rightarrow> interpret_from n tokens (k + 1) s'
      | r \<Rightarrow> r)"
proof -
  from assms(5) have "new_i + 1 \<le> length tokens" by (simp add: matching_brace_def)
  then have "find_block_end tokens (new_i + 1) = Inr (k + 1)"
    using assms(5) by (rule find_block_end_char(1))
  with assms(3,4) have "while_header tokens i = Inr (cond, new_i + 1, k + 1)"
    by (simp add: while_header_def)
  with assms(1,2) show ?thesis by (simp add: interpret_from_WHILE cong: result.case_cong)
qed


lemma count_then_match:
  "matching_brace [''SET'', ''i'', ''='', ''0'', ''WHILE'', ''i'', ''<'', ''5'', ''{'',
      ''SET'', ''i'', ''='', ''i'', ''+'', ''1'', ''}'', ''SET'', ''j'', ''='', ''7''] 9 15"
proof -
  let ?ts = "[''SET'', ''i'', ''='', ''0'', ''WHILE'', ''i'', ''<'', ''5'', ''{'',
      ''SET'', ''i'', ''='', ''i'', ''+'', ''1'', ''}'', ''SET'', ''j'', ''='', ''7'']"
  have "depth_before ?ts 9 j > 0" if "j \<in> {9..15}" for j
  proof -
    have "set (slice ?ts 9 j) \<subseteq> set (take 6 (drop 9 ?ts))"
      using that unfolding slice_def by (intro set_take_subset_set_take) auto
    then have "''}'' \<notin> set (slice ?ts 9 j)" by auto
    then have "count_list (slice ?ts 9 j) ''}'' = 0" by simp
    then show ?thesis by (simp add: depth_before_def)
  qed
  then show ?thesis by (simp add: matching_brace_def depth_before_def slice_def)
qed

text \<open>
  C6. The program \<^verbatim>\<open>SET i = 0 WHILE i < 5 { SET i = i + 1 }\<close> terminates (fuel 9 is enough,
  and any more gives the same result), leaves \<^verbatim>\<open>i\<close> bound to 5, and its loop body runs
  exactly 5 times; the same holds when a statement follows the block, and that statement is
  then executed. In general: a \<^verbatim>\<open>WHILE\<close> loop that finishes has evaluated its condition to
  false in the final state, after some number of iterations each of which evaluated the
  condition to true before running the body; and the \<^verbatim>\<open>WHILE\<close> statement at index \<^verbatim>\<open>i\<close>,
  whose condition ends at the opening brace and whose block is closed by the matching brace
  at index \<^verbatim>\<open>k\<close>, runs this loop on exactly the tokens between the two braces and then
  continues at index \<^verbatim>\<open>k + 1\<close>, only after the condition has become false.
\<close>

theorem while_counts_to_five:
  "(\<forall>s k. run (9 + k) ''SET i = 0 WHILE i < 5 { SET i = i + 1 }'' s =
      Finished (s\<lparr>symbols := (symbols s)(''i'' \<mapsto> Number (Fin 5))\<rparr>)) \<and>
   (\<forall>s k. run (9 + k) ''SET i = 0 WHILE i < 5 { SET i = i + 1 } SET j = 7'' s =
      Finished (s\<lparr>symbols := (symbols s)(''i'' \<mapsto> Number (Fin 5), ''j'' \<mapsto> Number (Fin 7))\<rparr>)) \<and>
   (\<forall>s. while_iterations 2 (Condition (Name ''i'') ''<'' (Num (Fin 5)))
      [''SET'', ''i'', ''='', ''i'', ''+'', ''1'']
      (s\<lparr>symbols := (symbols s)(''i'' \<mapsto> Number (Fin 0))\<rparr>) 5
      (s\<lparr>symbols := (symbols s)(''i'' \<mapsto> Number (Fin 5))\<rparr>)) \<and>
   (\<forall>s m s'. while_iterations 2 (Condition (Name ''i'') ''<'' (Num (Fin 5)))
      [''SET'', ''i'', ''='', ''i'', ''+'', ''1'']
      (s\<lparr>symbols := (symbols s)(''i'' \<mapsto> Number (Fin 0))\<rparr>) m s' \<longrightarrow> m = 5) \<and>
   (\<forall>n cond body s s'. while_loop n cond body s = Finished s' \<longrightarrow>
      eval_condition (symbols s') cond = Inr False \<and> (\<exists>m. while_iterations n cond body s m s')) \<and>
   (\<forall>n cond body s m s'. while_iterations n cond body s m s' \<longrightarrow>
      while_loop (Suc (n + m)) cond body s = Finished s') \<and>
   (\<forall>n tokens i s cond new_i k.
      i < length tokens \<and> tokens ! i = ''WHILE'' \<and>
      parse_condition tokens (i + 1) = Inr (cond, new_i) \<and> nth_py tokens new_i = Inr ''{'' \<and>
      matching_brace tokens (new_i + 1) k \<longrightarrow>
      interpret_from (Suc n) tokens i s =
        (case while_loop n cond (slice tokens (new_i + 1) k) s of
           Finished s' \<Rightarrow> interpret_from n tokens (k + 1) s'
         | r \<Rightarrow> r)) \<and>
   (\<forall>n tokens i s cond new_i k s''.
      i < length tokens \<and> tokens ! i = ''WHILE'' \<and>
      parse_condition tokens (i + 1) = Inr (cond, new_i) \<and> nth_py tokens new_i = Inr ''{'' \<and>
      matching_brace tokens (new_i + 1) k \<and>
      interpret_from (Suc n) tokens i s = Finished s'' \<longrightarrow>
      (\<exists>m s'. while_iterations n cond (slice tokens (new_i + 1) k) s m s' \<and>
         eval_condition (symbols s') cond = Inr False \<and>
         interpret_from n tokens (k + 1) s' = Finished s''))"
proof (intro conjI allI impI)
  fix s :: state and k
  have "run 9 ''SET i = 0 WHILE i < 5 { SET i = i + 1 }'' s =
      Finished (s\<lparr>symbols := (symbols s)(''i'' \<mapsto> Number (Fin 5))\<rparr>)"
    by (simp add: run_def count_tokens count_run)
  then show "run (9 + k) ''SET i = 0 WHILE i < 5 { SET i = i + 1 }'' s =
      Finished (s\<lparr>symbols := (symbols s)(''i'' \<mapsto> Number (Fin 5))\<rparr>)"
    by (rule run_more_fuel) simp
next
  fix s :: state and k
  have "run 9 ''SET i = 0 WHILE i < 5 { SET i = i + 1 } SET j = 7'' s =
      Finished (s\<lparr>symbols := (symbols s)(''i'' \<mapsto> Number (Fin 5), ''j'' \<mapsto> Number (Fin 7))\<rparr>)"
    by (simp add: run_def count_then_tokens count_then_run)
  then show "run (9 + k) ''SET i = 0 WHILE i < 5 { SET i = i + 1 } SET j = 7'' s =
      Finished (s\<lparr>symbols := (symbols s)(''i'' \<mapsto> Number (Fin 5), ''j'' \<mapsto> Number (Fin 7))\<rparr>)"
    by (rule run_more_fuel) simp
next
  fix s :: state
  show "while_iterations 2 (Condition (Name ''i'') ''<'' (Num (Fin 5)))
      [''SET'', ''i'', ''='', ''i'', ''+'', ''1'']
      (s\<lparr>symbols := (symbols s)(''i'' \<mapsto> Number (Fin 0))\<rparr>) 5
      (s\<lparr>symbols := (symbols s)(''i'' \<mapsto> Number (Fin 5))\<rparr>)"
    by (rule count_five)
next
  fix s :: state and m s'
  assume "while_iterations 2 (Condition (Name ''i'') ''<'' (Num (Fin 5)))
      [''SET'', ''i'', ''='', ''i'', ''+'', ''1'']
      (s\<lparr>symbols := (symbols s)(''i'' \<mapsto> Number (Fin 0))\<rparr>) m s'"
  then have "m = 5 \<and> s' = s\<lparr>symbols := (symbols s)(''i'' \<mapsto> Number (Fin 5))\<rparr>"
    using count_five[of s] by (rule while_iterations_unique)
  then show "m = 5" by (rule conjunct1)
next
  fix n cond body s s'
  assume "while_loop n cond body s = Finished s'"
  then have c: "eval_condition (symbols s') cond = Inr False \<and>
      (\<exists>m. while_iterations n cond body s m s')"
    by (rule while_loop_complete)
  from c show "eval_condition (symbols s') cond = Inr False" by (rule conjunct1)
  from c show "\<exists>m. while_iterations n cond body s m s'" by (rule conjunct2)
next
  fix n cond body s m s'
  assume "while_iterations n cond body s m s'"
  then show "while_loop (Suc (n + m)) cond body s = Finished s'"
    by (rule while_loop_sound)
next
  fix n tokens i and s :: state and cond new_i k
  assume "i < length tokens \<and> tokens ! i = ''WHILE'' \<and>
      parse_condition tokens (i + 1) = Inr (cond, new_i) \<and> nth_py tokens new_i = Inr ''{'' \<and>
      matching_brace tokens (new_i + 1) k"
  then show "interpret_from (Suc n) tokens i s =
        (case while_loop n cond (slice tokens (new_i + 1) k) s of
           Finished s' \<Rightarrow> interpret_from n tokens (k + 1) s'
         | r \<Rightarrow> r)"
    using while_statement by blast
next
  fix n tokens i and s :: state and cond new_i k s''
  assume a: "i < length tokens \<and> tokens ! i = ''WHILE'' \<and>
      parse_condition tokens (i + 1) = Inr (cond, new_i) \<and> nth_py tokens new_i = Inr ''{'' \<and>
      matching_brace tokens (new_i + 1) k \<and>
      interpret_from (Suc n) tokens i s = Finished s''"
  then have "interpret_from (Suc n) tokens i s =
        (case while_loop n cond (slice tokens (new_i + 1) k) s of
           Finished s' \<Rightarrow> interpret_from n tokens (k + 1) s'
         | r \<Rightarrow> r)"
    using while_statement by blast
  with a obtain s' where w: "while_loop n cond (slice tokens (new_i + 1) k) s = Finished s'"
    and r: "interpret_from n tokens (k + 1) s' = Finished s''"
    by (auto split: result.splits)
  from w have "eval_condition (symbols s') cond = Inr False \<and>
      (\<exists>m. while_iterations n cond (slice tokens (new_i + 1) k) s m s')"
    by (rule while_loop_complete)
  with r show "\<exists>m s'. while_iterations n cond (slice tokens (new_i + 1) k) s m s' \<and>
         eval_condition (symbols s') cond = Inr False \<and>
         interpret_from n tokens (k + 1) s' = Finished s''"
    by blast
qed


theorem while_counts_to_five_witness:
  "while_loop 7 (Condition (Name ''i'') ''<'' (Num (Fin 5))) [''SET'', ''i'', ''='', ''i'', ''+'', ''1'']
     ((initial_state no_random)\<lparr>symbols := [''i'' \<mapsto> Number (Fin 0)]\<rparr>) =
     Finished ((initial_state no_random)\<lparr>symbols := [''i'' \<mapsto> Number (Fin 5)]\<rparr>) \<and>
   eval_condition (symbols ((initial_state no_random)\<lparr>symbols := [''i'' \<mapsto> Number (Fin 5)]\<rparr>))
     (Condition (Name ''i'') ''<'' (Num (Fin 5))) = Inr False \<and>
   interpret_from 8 [''SET'', ''i'', ''='', ''0'', ''WHILE'', ''i'', ''<'', ''5'', ''{'',
      ''SET'', ''i'', ''='', ''i'', ''+'', ''1'', ''}'', ''SET'', ''j'', ''='', ''7''] 4
     ((initial_state no_random)\<lparr>symbols := [''i'' \<mapsto> Number (Fin 0)]\<rparr>) =
     Finished ((initial_state no_random)\<lparr>symbols := [''i'' \<mapsto> Number (Fin 5), ''j'' \<mapsto> Number (Fin 7)]\<rparr>)"
proof -
  define cond where "cond = Condition (Name ''i'') ''<'' (Num (Fin 5))"
  define body where "body = [''SET'', ''i'', ''='', ''i'', ''+'', ''1'']"
  define ts where "ts = [''SET'', ''i'', ''='', ''0'', ''WHILE'', ''i'', ''<'', ''5'', ''{'',
      ''SET'', ''i'', ''='', ''i'', ''+'', ''1'', ''}'', ''SET'', ''j'', ''='', ''7'']"
  define s0 where "s0 = (initial_state no_random)\<lparr>symbols := [''i'' \<mapsto> Number (Fin 0)]\<rparr>"
  define s5 where "s5 = (initial_state no_random)\<lparr>symbols := [''i'' \<mapsto> Number (Fin 5)]\<rparr>"
  define s7 where "s7 = (initial_state no_random)\<lparr>symbols := [''i'' \<mapsto> Number (Fin 5), ''j'' \<mapsto> Number (Fin 7)]\<rparr>"
  have w: "while_loop 7 cond body s0 = Finished s5"
    unfolding cond_def body_def s0_def s5_def
    by (simp add: interpret_simps parse_simps Let_def initial_state_def)
  have c4: "\<forall>n cond body s s'. while_loop n cond body s = Finished s' \<longrightarrow>
      eval_condition (symbols s') cond = Inr False \<and> (\<exists>m. while_iterations n cond body s m s')"
    using while_counts_to_five
    by (rule conjunct2[THEN conjunct2, THEN conjunct2, THEN conjunct2, THEN conjunct1])
  have f: "eval_condition (symbols s5) cond = Inr False"
    using c4[rule_format, of 7 cond body s0 s5, OF w] by (rule conjunct1)
  have c7: "\<forall>n tokens i s cond new_i k.
      i < length tokens \<and> tokens ! i = ''WHILE'' \<and>
      parse_condition tokens (i + 1) = Inr (cond, new_i) \<and> nth_py tokens new_i = Inr ''{'' \<and>
      matching_brace tokens (new_i + 1) k \<longrightarrow>
      interpret_from (Suc n) tokens i s =
        (case while_loop n cond (slice tokens (new_i + 1) k) s of
           Finished s' \<Rightarrow> interpret_from n tokens (k + 1) s'
         | r \<Rightarrow> r)"
    using while_counts_to_five
    by (rule conjunct2[THEN conjunct2, THEN conjunct2, THEN conjunct2, THEN conjunct2,
          THEN conjunct2, THEN conjunct1])
  have h: "4 < length ts \<and> ts ! 4 = ''WHILE'' \<and>
      parse_condition ts (4 + 1) = Inr (cond, 8) \<and> nth_py ts 8 = Inr ''{'' \<and>
      matching_brace ts (8 + 1) 15"
    using count_then_match
    by (simp add: ts_def cond_def parse_condition_def parse_simps nth_py_def)
  have "interpret_from (Suc 7) ts 4 s0 =
        (case while_loop 7 cond (slice ts (8 + 1) 15) s0 of
           Finished s' \<Rightarrow> interpret_from 7 ts (15 + 1) s'
         | r \<Rightarrow> r)"
    by (rule c7[rule_format, of 4 ts cond 8 15 7 s0, OF h])
  moreover have "slice ts (8 + 1) 15 = body" by (simp add: ts_def body_def slice_def)
  moreover have "interpret_from 7 ts (15 + 1) s5 = Finished s7"
    unfolding ts_def s5_def s7_def
    by (simp add: interpret_simps parse_simps Let_def initial_state_def)
  moreover have "Suc 7 = 8" by simp
  ultimately have r: "interpret_from 8 ts 4 s0 = Finished s7"
    using w by simp
  from w f r show ?thesis
    unfolding cond_def body_def ts_def s0_def s5_def s7_def by (intro conjI)
qed


subsection \<open>The star\<close>

lemma fl_bounded: "\<bar>r\<bar> < float_limit \<Longrightarrow> fl r = Fin r"
  by (auto simp: fl_def)

lemma float_limit_pos: "0 < float_limit"
  using float_limit_large by (rule less_trans[rotated]) simp

lemma mul_cos_bounded: "\<bar>v * cos a\<bar> \<le> \<bar>v :: real\<bar>"
proof -
  have "\<bar>v\<bar> * \<bar>cos a\<bar> \<le> \<bar>v\<bar> * 1"
    by (rule mult_left_mono) simp_all
  then show ?thesis by (simp add: abs_mult)
qed

lemma mul_sin_bounded: "\<bar>v * sin a\<bar> \<le> \<bar>v :: real\<bar>"
proof -
  have "\<bar>v\<bar> * \<bar>sin a\<bar> \<le> \<bar>v\<bar> * 1"
    by (rule mult_left_mono) simp_all
  then show ?thesis by (simp add: abs_mult)
qed

lemma star_outer:
  assumes "\<bar>c\<bar> + \<bar>v\<bar> < float_limit"
  shows "float_add (Fin c) (float_mul (Fin v) (Fin (cos a))) = Fin (c + v * cos a)"
    and "float_add (Fin c) (float_mul (Fin v) (Fin (sin a))) = Fin (c + v * sin a)"
proof -
  from assms have v: "\<bar>v\<bar> < float_limit" by arith
  have "\<bar>v * cos a\<bar> < float_limit" using mul_cos_bounded[of v a] v by arith
  moreover have "\<bar>c + v * cos a\<bar> < float_limit" using mul_cos_bounded[of v a] assms by arith
  ultimately show "float_add (Fin c) (float_mul (Fin v) (Fin (cos a))) = Fin (c + v * cos a)"
    by (simp add: fl_bounded)
  have "\<bar>v * sin a\<bar> < float_limit" using mul_sin_bounded[of v a] v by arith
  moreover have "\<bar>c + v * sin a\<bar> < float_limit" using mul_sin_bounded[of v a] assms by arith
  ultimately show "float_add (Fin c) (float_mul (Fin v) (Fin (sin a))) = Fin (c + v * sin a)"
    by (simp add: fl_bounded)
qed

lemma star_inner:
  assumes "\<bar>c\<bar> + \<bar>v\<bar> < float_limit"
  shows "float_add (Fin c) (float_mul (float_mul (Fin v) (Fin 0.5)) (Fin (cos a))) =
           Fin (c + v * 0.5 * cos a)"
    and "float_add (Fin c) (float_mul (float_mul (Fin v) (Fin 0.5)) (Fin (sin a))) =
           Fin (c + v * 0.5 * sin a)"
proof -
  have h: "\<bar>v * 0.5\<bar> \<le> \<bar>v\<bar>" by (simp add: abs_mult)
  with assms have b: "\<bar>c\<bar> + \<bar>v * 0.5\<bar> < float_limit" by arith
  then have "\<bar>v * 0.5\<bar> < float_limit" by arith
  then have e: "float_mul (Fin v) (Fin 0.5) = Fin (v * 0.5)" by (simp add: fl_bounded)
  show "float_add (Fin c) (float_mul (float_mul (Fin v) (Fin 0.5)) (Fin (cos a))) =
           Fin (c + v * 0.5 * cos a)"
    unfolding e by (rule star_outer(1)[OF b])
  show "float_add (Fin c) (float_mul (float_mul (Fin v) (Fin 0.5)) (Fin (sin a))) =
           Fin (c + v * 0.5 * sin a)"
    unfolding e by (rule star_outer(2)[OF b])
qed

lemma star_points_length: "length (star_points pos sz) = 10"
proof -
  have "[0..<5] = [0, 1, 2, 3, 4::nat]" by (simp add: upt_rec)
  then show ?thesis by (simp add: star_points_def Let_def)
qed

lemma star_points_nth:
  assumes "k < 5"
  shows "star_points pos sz ! (2 * k) =
           (float_add (Fin (real_of_int (fst pos))) (float_mul sz (Fin (cos (real k * 4 * pi / 5)))),
            float_add (Fin (real_of_int (snd pos))) (float_mul sz (Fin (sin (real k * 4 * pi / 5)))))"
    and "star_points pos sz ! (2 * k + 1) =
           (float_add (Fin (real_of_int (fst pos)))
              (float_mul (float_mul sz (Fin 0.5)) (Fin (cos (real k * 4 * pi / 5 + 2 * pi / 5)))),
            float_add (Fin (real_of_int (snd pos)))
              (float_mul (float_mul sz (Fin 0.5)) (Fin (sin (real k * 4 * pi / 5 + 2 * pi / 5)))))"
proof -
  have u: "[0..<5] = [0, 1, 2, 3, 4::nat]" by (simp add: upt_rec)
  from assms have k: "k = 0 \<or> k = 1 \<or> k = 2 \<or> k = 3 \<or> k = 4" by arith
  show "star_points pos sz ! (2 * k) =
           (float_add (Fin (real_of_int (fst pos))) (float_mul sz (Fin (cos (real k * 4 * pi / 5)))),
            float_add (Fin (real_of_int (snd pos))) (float_mul sz (Fin (sin (real k * 4 * pi / 5)))))"
    using k by (elim disjE) (simp_all add: star_points_def Let_def u)
  show "star_points pos sz ! (2 * k + 1) =
           (float_add (Fin (real_of_int (fst pos)))
              (float_mul (float_mul sz (Fin 0.5)) (Fin (cos (real k * 4 * pi / 5 + 2 * pi / 5)))),
            float_add (Fin (real_of_int (snd pos)))
              (float_mul (float_mul sz (Fin 0.5)) (Fin (sin (real k * 4 * pi / 5 + 2 * pi / 5)))))"
    using k by (elim disjE) (simp_all add: star_points_def Let_def u)
qed

lemma trunc_of_int: "trunc (real_of_int n) = n"
  by (simp add: trunc_def)

lemma star_program_tokens:
  "tokenize ''DRAW Star 10 AT 0.9 , 0.9'' = Inr [''DRAW'', ''Star'', ''10'', ''AT'', ''0.9'', '','', ''0.9'']"
  by (simp add: tokenize_simps)


lemma star_program_run:
  "interpret_tokens 2 [''DRAW'', ''Star'', ''10'', ''AT'', ''0.9'', '','', ''0.9''] (initial_state no_random) =
   Finished ((initial_state no_random)
     \<lparr>screen := [Polygon (255, 255, 255) (star_points (0, 0) (Fin 10)) 2]\<rparr>)"
  by (simp add: interpret_simps parse_simps Let_def initial_state_def draw_shape_def py_int_def
      trunc_def)

text \<open>
  C9 (as amended). Drawing a Star of size \<open>v\<close> at the finite position \<open>(x, y)\<close> (given
  after \<^verbatim>\<open>AT\<close>, or else the cursor's) emits one polygon of exactly 10 points in the cursor's
  colour, centred at the position \<^emph>\<open>truncated to integers\<close>, \<open>(int(x), int(y))\<close>. Where
  nothing overflows, the \<open>k\<close>-th outer vertex lies at angle \<open>k * 4\<pi>/5\<close> at radius \<open>v\<close> from
  that centre and its paired inner vertex at angle \<open>k * 4\<pi>/5 + 2\<pi>/5\<close> at radius
  \<open>v * 0.5\<close>, the first outer vertex at angle 0. The centre is the position itself when the
  position is integral. An infinite coordinate raises \<^verbatim>\<open>OverflowError\<close> and a NaN
  coordinate raises \<^verbatim>\<open>ValueError\<close>, and nothing is drawn.
\<close>

theorem star_is_ten_alternating_points:
  "(\<forall>sz x y s. draw_shape ''Star'' (Number sz) (Number (Fin x)) (Number (Fin y)) s =
      Inr (s\<lparr>screen := screen s @
        [Polygon (cursor_color (cursor s)) (star_points (trunc x, trunc y) sz) 2]\<rparr>)) \<and>
   (\<forall>sz x y s. cursor_x (cursor s) = Fin x \<and> cursor_y (cursor s) = Fin y \<longrightarrow>
      draw_shape ''Star'' (Number sz) NoneVal NoneVal s =
      Inr (s\<lparr>screen := screen s @
        [Polygon (cursor_color (cursor s)) (star_points (trunc x, trunc y) sz) 2]\<rparr>)) \<and>
   (\<forall>p sz. length (star_points p sz) = 10) \<and>
   (\<forall>p v k. k < 5 \<and> \<bar>real_of_int (fst p)\<bar> + \<bar>v\<bar> < float_limit \<and>
        \<bar>real_of_int (snd p)\<bar> + \<bar>v\<bar> < float_limit \<longrightarrow>
      star_points p (Fin v) ! (2 * k) =
        (Fin (real_of_int (fst p) + v * cos (real k * (4 * pi / 5))),
         Fin (real_of_int (snd p) + v * sin (real k * (4 * pi / 5)))) \<and>
      star_points p (Fin v) ! (2 * k + 1) =
        (Fin (real_of_int (fst p) + v * 0.5 * cos (real k * (4 * pi / 5) + 2 * pi / 5)),
         Fin (real_of_int (snd p) + v * 0.5 * sin (real k * (4 * pi / 5) + 2 * pi / 5)))) \<and>
   (\<forall>n. trunc (real_of_int n) = n) \<and>
   (\<forall>x. \<bar>real_of_int (trunc x)\<bar> \<le> \<bar>x\<bar> \<and> \<bar>x - real_of_int (trunc x)\<bar> < 1) \<and>
   (\<forall>sz y s. draw_shape ''Star'' sz (Number PInf) y s = Inl OverflowError \<and>
      draw_shape ''Star'' sz (Number NInf) y s = Inl OverflowError \<and>
      draw_shape ''Star'' sz (Number NaN) y s = Inl ValueError) \<and>
   (\<forall>sz x s. draw_shape ''Star'' sz (Number (Fin x)) (Number PInf) s = Inl OverflowError \<and>
      draw_shape ''Star'' sz (Number (Fin x)) (Number NInf) s = Inl OverflowError \<and>
      draw_shape ''Star'' sz (Number (Fin x)) (Number NaN) s = Inl ValueError)"
proof (intro conjI allI impI)
  fix sz x y and s :: state
  show "draw_shape ''Star'' (Number sz) (Number (Fin x)) (Number (Fin y)) s =
      Inr (s\<lparr>screen := screen s @
        [Polygon (cursor_color (cursor s)) (star_points (trunc x, trunc y) sz) 2]\<rparr>)"
    by (simp add: draw_shape_def py_int_def)
next
  fix sz x y and s :: state
  assume "cursor_x (cursor s) = Fin x \<and> cursor_y (cursor s) = Fin y"
  then show "draw_shape ''Star'' (Number sz) NoneVal NoneVal s =
      Inr (s\<lparr>screen := screen s @
        [Polygon (cursor_color (cursor s)) (star_points (trunc x, trunc y) sz) 2]\<rparr>)"
    by (simp add: draw_shape_def py_int_def)
next
  fix p sz show "length (star_points p sz) = 10" by (rule star_points_length)
next
  fix p :: "int \<times> int" and v :: real and k :: nat
  assume h: "k < 5 \<and> \<bar>real_of_int (fst p)\<bar> + \<bar>v\<bar> < float_limit \<and>
        \<bar>real_of_int (snd p)\<bar> + \<bar>v\<bar> < float_limit"
  then have k: "k < 5" and a: "\<bar>real_of_int (fst p)\<bar> + \<bar>v\<bar> < float_limit"
    and b: "\<bar>real_of_int (snd p)\<bar> + \<bar>v\<bar> < float_limit" by simp_all
  have e: "real k * 4 * pi / 5 = real k * (4 * pi / 5)" by simp
  show "star_points p (Fin v) ! (2 * k) =
        (Fin (real_of_int (fst p) + v * cos (real k * (4 * pi / 5))),
         Fin (real_of_int (snd p) + v * sin (real k * (4 * pi / 5))))"
    by (simp only: star_points_nth(1)[OF k] star_outer(1)[OF a] star_outer(2)[OF b] e)
  show "star_points p (Fin v) ! (2 * k + 1) =
        (Fin (real_of_int (fst p) + v * 0.5 * cos (real k * (4 * pi / 5) + 2 * pi / 5)),
         Fin (real_of_int (snd p) + v * 0.5 * sin (real k * (4 * pi / 5) + 2 * pi / 5)))"
    by (simp only: star_points_nth(2)[OF k] star_inner(1)[OF a] star_inner(2)[OF b] e)
next
  fix n show "trunc (real_of_int n) = n" by (rule trunc_of_int)
next
  fix x :: real
  show "\<bar>real_of_int (trunc x)\<bar> \<le> \<bar>x\<bar>" by (simp add: trunc_def)
  show "\<bar>x - real_of_int (trunc x)\<bar> < 1" by (simp add: trunc_def) linarith
next
  fix sz y and s :: state
  show "draw_shape ''Star'' sz (Number PInf) y s = Inl OverflowError"
    by (simp add: draw_shape_def py_int_def)
  show "draw_shape ''Star'' sz (Number NInf) y s = Inl OverflowError"
    by (simp add: draw_shape_def py_int_def)
  show "draw_shape ''Star'' sz (Number NaN) y s = Inl ValueError"
    by (simp add: draw_shape_def py_int_def)
next
  fix sz x and s :: state
  show "draw_shape ''Star'' sz (Number (Fin x)) (Number PInf) s = Inl OverflowError"
    by (simp add: draw_shape_def py_int_def)
  show "draw_shape ''Star'' sz (Number (Fin x)) (Number NInf) s = Inl OverflowError"
    by (simp add: draw_shape_def py_int_def)
  show "draw_shape ''Star'' sz (Number (Fin x)) (Number NaN) s = Inl ValueError"
    by (simp add: draw_shape_def py_int_def)
qed

theorem star_is_ten_alternating_points_witness:
  "(1::nat) < 5 \<and> \<bar>real_of_int (fst (400::int, 300::int))\<bar> + \<bar>15\<bar> < float_limit \<and>
   \<bar>real_of_int (snd (400::int, 300::int))\<bar> + \<bar>15\<bar> < float_limit \<and>
   star_points (400, 300) (Fin 15) ! 2 =
     (Fin (400 + 15 * cos (4 * pi / 5)), Fin (300 + 15 * sin (4 * pi / 5))) \<and>
   star_points (400, 300) (Fin 15) ! 3 =
     (Fin (400 + 15 * 0.5 * cos (4 * pi / 5 + 2 * pi / 5)),
      Fin (300 + 15 * 0.5 * sin (4 * pi / 5 + 2 * pi / 5)))"
proof -
  have h: "(1::nat) < 5 \<and> \<bar>real_of_int (fst (400::int, 300::int))\<bar> + \<bar>15\<bar> < float_limit \<and>
      \<bar>real_of_int (snd (400::int, 300::int))\<bar> + \<bar>15\<bar> < float_limit"
    using float_limit_large by simp
  have c: "\<forall>p v k. k < 5 \<and> \<bar>real_of_int (fst p)\<bar> + \<bar>v\<bar> < float_limit \<and>
        \<bar>real_of_int (snd p)\<bar> + \<bar>v\<bar> < float_limit \<longrightarrow>
      star_points p (Fin v) ! (2 * k) =
        (Fin (real_of_int (fst p) + v * cos (real k * (4 * pi / 5))),
         Fin (real_of_int (snd p) + v * sin (real k * (4 * pi / 5)))) \<and>
      star_points p (Fin v) ! (2 * k + 1) =
        (Fin (real_of_int (fst p) + v * 0.5 * cos (real k * (4 * pi / 5) + 2 * pi / 5)),
         Fin (real_of_int (snd p) + v * 0.5 * sin (real k * (4 * pi / 5) + 2 * pi / 5)))"
    using star_is_ten_alternating_points
    by (rule conjunct2[THEN conjunct2, THEN conjunct2, THEN conjunct1])
  have "star_points (400, 300) (Fin 15) ! (2 * 1) =
        (Fin (real_of_int (fst (400::int, 300::int)) + 15 * cos (real 1 * (4 * pi / 5))),
         Fin (real_of_int (snd (400::int, 300::int)) + 15 * sin (real 1 * (4 * pi / 5)))) \<and>
      star_points (400, 300) (Fin 15) ! (2 * 1 + 1) =
        (Fin (real_of_int (fst (400::int, 300::int)) + 15 * 0.5 * cos (real 1 * (4 * pi / 5) + 2 * pi / 5)),
         Fin (real_of_int (snd (400::int, 300::int)) + 15 * 0.5 * sin (real 1 * (4 * pi / 5) + 2 * pi / 5)))"
    by (rule c[rule_format, of 1 "(400, 300)" 15, OF h])
  then have "star_points (400, 300) (Fin 15) ! 2 =
     (Fin (400 + 15 * cos (4 * pi / 5)), Fin (300 + 15 * sin (4 * pi / 5))) \<and>
   star_points (400, 300) (Fin 15) ! 3 =
     (Fin (400 + 15 * 0.5 * cos (4 * pi / 5 + 2 * pi / 5)),
      Fin (300 + 15 * 0.5 * sin (4 * pi / 5 + 2 * pi / 5)))"
    by simp
  with h show ?thesis by (intro conjI) simp_all
qed

theorem star_centre_is_the_truncated_position:
  "run 2 ''DRAW Star 10 AT 0.9 , 0.9'' (initial_state no_random) =
     Finished ((initial_state no_random)
       \<lparr>screen := [Polygon (255, 255, 255) (star_points (0, 0) (Fin 10)) 2]\<rparr>) \<and>
   star_points (0, 0) (Fin 10) ! 0 = (Fin 10, Fin 0) \<and>
   star_points (0, 0) (Fin 10) ! 0 \<noteq> (Fin (0.9 + 10 * cos 0), Fin (0.9 + 10 * sin 0))"
proof -
  have "(10::real) < float_limit" using float_limit_large by simp
  then have "fl 10 = Fin 10" "fl 0 = Fin 0" by (simp_all add: fl_def)
  then have "star_points (0, 0) (Fin 10) ! 0 = (Fin 10, Fin 0)"
    using star_points_nth(1)[of 0 "(0, 0)" "Fin 10"] by simp
  then show ?thesis by (simp add: run_def star_program_tokens star_program_run)
qed


subsection \<open>Names in expression position\<close>







subsection \<open>The tokenizer\<close>

lemma surround_empty: "surround {} code = code"
  by (induction code) (simp_all add: surround_def)

lemma surround_step:
  "ch \<notin> S \<Longrightarrow> ch \<noteq> CHR '' '' \<Longrightarrow> replace_ch ch (surround S code) = surround (insert ch S) code"
  by (induction code) (auto simp: surround_def replace_ch_def)

lemma replace_all_surround:
  "foldl (\<lambda>code op. replace_ch op code)
     (foldl (\<lambda>code ch. replace_ch ch code) code ''{}(),'') ''+-*/=><!'' = surround SEPARATED code"
proof -
  have "foldl (\<lambda>code op. replace_ch op code)
     (foldl (\<lambda>code ch. replace_ch ch code) (surround {} code) ''{}(),'') ''+-*/=><!'' =
     surround SEPARATED code"
    by (simp add: surround_step SEPARATED_def insert_commute)
  then show ?thesis by (simp add: surround_empty)
qed

lemma split_at_nonempty: "split_at p cs \<noteq> []"
  by (induction cs) simp_all

lemma split_from_split_at:
  "split_from cur cs =
     filter (\<lambda>w. w \<noteq> []) ((cur @ hd (split_at is_space cs)) # tl (split_at is_space cs))"
proof (induction cs arbitrary: cur)
  case Nil
  show ?case by simp
next
  case (Cons c cs)
  have e: "hd (split_at is_space cs) # tl (split_at is_space cs) = split_at is_space cs"
    by (simp add: split_at_nonempty)
  show ?case
  proof (cases "is_space c")
    case True
    have "split_from [] cs = filter (\<lambda>w. w \<noteq> []) (split_at is_space cs)"
      using Cons.IH[of "[]"] e by simp
    with True show ?thesis by simp
  next
    case False
    then show ?thesis using Cons.IH[of "cur @ [c]"] by simp
  qed
qed

lemma split_fragments: "split code = fragments code"
  using split_from_split_at[of "[]" code] by (simp add: split_def fragments_def split_at_nonempty)

lemma fragments_nonempty: "filter (\<lambda>tok. tok \<noteq> []) (fragments code) = fragments code"
  by (simp add: fragments_def)

lemma combine_merge:
  "combine tokens i acc = Inr (acc @ merge_bang_eq (drop i tokens))"
proof (induction "length tokens - i" arbitrary: i acc rule: less_induct)
  case less
  show ?case
  proof (cases "i < length tokens")
    case False
    then show ?thesis by (simp add: combine.simps)
  next
    case True
    then have d: "drop i tokens = tokens ! i # drop (Suc i) tokens"
      by (simp add: Cons_nth_drop_Suc)
    have s1: "combine tokens (i + 1) acc' = Inr (acc' @ merge_bang_eq (drop (i + 1) tokens))" for acc'
      using True by (intro less) arith
    show ?thesis
    proof (cases "Suc i < length tokens")
      case False
      with True have "drop (Suc i) tokens = []" by simp
      with True False d s1 show ?thesis
        by (subst combine.simps) (simp add: nth_py_def)
    next
      case t: True
      then have d2: "drop (Suc i) tokens = tokens ! Suc i # drop (Suc (Suc i)) tokens"
        by (simp add: Cons_nth_drop_Suc)
      have s2: "combine tokens (i + 2) acc' = Inr (acc' @ merge_bang_eq (drop (i + 2) tokens))" for acc'
        using True by (intro less) arith
      from True t d d2 s1 s2 show ?thesis
        by (subst combine.simps) (simp add: nth_py_def)
    qed
  qed
qed

lemma tokenize_char: "tokenize code = Inr (merge_bang_eq (fragments (surround SEPARATED code)))"
  unfolding tokenize_def Let_def replace_all_surround split_fragments fragments_nonempty
    combine_merge by simp


lemma separated_not_space: "c \<in> SEPARATED \<Longrightarrow> \<not> is_space c"
  by (auto simp: SEPARATED_def is_space_def)

lemma split_at_no_separator: "w \<in> set (split_at p cs) \<Longrightarrow> c \<in> set w \<Longrightarrow> \<not> p c"
proof (induction cs arbitrary: w)
  case Nil
  then show ?case by simp
next
  case (Cons a cs)
  have e: "hd (split_at p cs) # tl (split_at p cs) = split_at p cs"
    by (simp add: split_at_nonempty)
  then have h: "hd (split_at p cs) \<in> set (split_at p cs)"
    and t: "set (tl (split_at p cs)) \<subseteq> set (split_at p cs)"
    by (metis list.set_intros(1), metis set_subset_Cons)
  show ?case
  proof (cases "p a")
    case True
    with Cons.prems have "w = [] \<or> w \<in> set (split_at p cs)" by simp
    with Cons.prems(2) Cons.IH show ?thesis by auto
  next
    case False
    with Cons.prems(1) have "w = a # hd (split_at p cs) \<or> w \<in> set (tl (split_at p cs))" by simp
    then show ?thesis
    proof
      assume "w = a # hd (split_at p cs)"
      with Cons.prems(2) have "c = a \<or> c \<in> set (hd (split_at p cs))" by simp
      with False h Cons.IH show ?thesis by auto
    next
      assume "w \<in> set (tl (split_at p cs))"
      with t have "w \<in> set (split_at p cs)" by auto
      with Cons.prems(2) Cons.IH show ?thesis by auto
    qed
  qed
qed

lemma surround_Nil: "surround S [] = []"
  by (simp add: surround_def)

lemma surround_Cons:
  "surround S (c # cs) = (if c \<in> S then [CHR '' '', c, CHR '' ''] else [c]) @ surround S cs"
  by (simp add: surround_def)

lemma space_is_space: "is_space CHR '' ''"
  by (simp add: is_space_def)

lemma surround_fragments:
  "set (hd (split_at is_space (surround SEPARATED cs))) \<inter> SEPARATED = {} \<and>
   (\<forall>w \<in> set (split_at is_space (surround SEPARATED cs)).
      (\<exists>c \<in> SEPARATED. w = [c]) \<or> set w \<inter> SEPARATED = {})"
proof (induction cs)
  case Nil
  show ?case by (simp add: surround_def)
next
  case (Cons a cs)
  let ?S = "split_at is_space (surround SEPARATED cs)"
  have e: "hd ?S # tl ?S = ?S" by (simp add: split_at_nonempty)
  then have t: "set (tl ?S) \<subseteq> set ?S" by (metis set_subset_Cons)
  from Cons have h: "set (hd ?S) \<inter> SEPARATED = {}"
    and r: "\<And>w. w \<in> set ?S \<Longrightarrow> (\<exists>c \<in> SEPARATED. w = [c]) \<or> set w \<inter> SEPARATED = {}"
    by simp_all
  show ?case
  proof (cases "a \<in> SEPARATED")
    case True
    then have "\<not> is_space a" by (rule separated_not_space)
    with True have "split_at is_space (surround SEPARATED (a # cs)) = [] # [a] # ?S"
      by (simp add: surround_Cons space_is_space)
    with True r show ?thesis by auto
  next
    case False
    show ?thesis
    proof (cases "is_space a")
      case True
      with False have "split_at is_space (surround SEPARATED (a # cs)) = [] # ?S"
        by (simp add: surround_Cons)
      with r show ?thesis by auto
    next
      case ns: False
      with False have "split_at is_space (surround SEPARATED (a # cs)) = (a # hd ?S) # tl ?S"
        by (simp add: surround_Cons)
      moreover have "set (a # hd ?S) \<inter> SEPARATED = {}" using False h by simp
      moreover have "(\<exists>c \<in> SEPARATED. w = [c]) \<or> set w \<inter> SEPARATED = {}" if "w \<in> set (tl ?S)" for w
        using that t r by blast
      ultimately show ?thesis by simp
    qed
  qed
qed

lemma fragment_shape:
  assumes "w \<in> set (fragments (surround SEPARATED code))"
  shows "w \<noteq> []" and "\<forall>c \<in> set w. \<not> is_space c"
    and "(\<exists>c \<in> SEPARATED. w = [c]) \<or> set w \<inter> SEPARATED = {}"
proof -
  from assms have n: "w \<noteq> []" and m: "w \<in> set (split_at is_space (surround SEPARATED code))"
    by (simp_all add: fragments_def)
  show "w \<noteq> []" by (rule n)
  show "\<forall>c \<in> set w. \<not> is_space c" using m split_at_no_separator by fast
  show "(\<exists>c \<in> SEPARATED. w = [c]) \<or> set w \<inter> SEPARATED = {}"
    using surround_fragments[of code] m by blast
qed

lemma merge_subset: "set (merge_bang_eq ts) \<subseteq> insert ''!='' (set ts)"
  by (induction ts rule: merge_bang_eq.induct) auto

lemma merge_hd:
  "merge_bang_eq (t # ts) \<noteq> [] \<and>
   (hd (merge_bang_eq (t # ts)) = t \<or> hd (merge_bang_eq (t # ts)) = ''!='')"
  by (cases ts) simp_all

lemma merge_no_pair:
  "Suc i < length (merge_bang_eq ts) \<Longrightarrow>
   \<not> (merge_bang_eq ts ! i = ''!'' \<and> merge_bang_eq ts ! Suc i = ''='')"
proof (induction ts arbitrary: i rule: merge_bang_eq.induct)
  case (1 t t' ts)
  show ?case
  proof (cases "t = ''!'' \<and> t' = ''=''")
    case True
    then have e: "merge_bang_eq (t # t' # ts) = ''!='' # merge_bang_eq ts" by simp
    show ?thesis
    proof (cases i)
      case 0
      then show ?thesis by (simp add: e del: merge_bang_eq.simps)
    next
      case (Suc j)
      with "1.prems" e have "Suc j < length (merge_bang_eq ts)" by (simp del: merge_bang_eq.simps)
      with True have "\<not> (merge_bang_eq ts ! j = ''!'' \<and> merge_bang_eq ts ! Suc j = ''='')"
        by (intro "1.IH"(1))
      with Suc show ?thesis by (simp add: e del: merge_bang_eq.simps)
    qed
  next
    case False
    then have e: "merge_bang_eq (t # t' # ts) = t # merge_bang_eq (t' # ts)" by auto
    show ?thesis
    proof (cases i)
      case 0
      have "merge_bang_eq (t' # ts) ! 0 = hd (merge_bang_eq (t' # ts))"
        using merge_hd[of t' ts] by (simp add: hd_conv_nth)
      then have "merge_bang_eq (t' # ts) ! 0 = t' \<or> merge_bang_eq (t' # ts) ! 0 = ''!=''"
        using merge_hd[of t' ts] by simp
      with 0 False show ?thesis by (auto simp: e simp del: merge_bang_eq.simps)
    next
      case (Suc j)
      with "1.prems" e have "Suc j < length (merge_bang_eq (t' # ts))" by (simp del: merge_bang_eq.simps)
      with False have "\<not> (merge_bang_eq (t' # ts) ! j = ''!'' \<and> merge_bang_eq (t' # ts) ! Suc j = ''='')"
        by (intro "1.IH"(2))
      with Suc show ?thesis by (simp add: e del: merge_bang_eq.simps)
    qed
  qed
qed simp_all

lemma merge_concat: "concat (merge_bang_eq ts) = concat ts"
  by (induction ts rule: merge_bang_eq.induct) auto

lemma split_at_concat: "concat (split_at p cs) = filter (\<lambda>c. \<not> p c) cs"
proof (induction cs)
  case Nil
  show ?case by simp
next
  case (Cons a cs)
  have "hd (split_at p cs) # tl (split_at p cs) = split_at p cs"
    by (simp add: split_at_nonempty)
  then have "hd (split_at p cs) @ concat (tl (split_at p cs)) = concat (split_at p cs)"
    by (metis concat.simps(2))
  with Cons show ?case by simp
qed

lemma concat_nonempty: "concat (filter (\<lambda>w. w \<noteq> []) ws) = concat ws"
  by (induction ws) simp_all

lemma surround_filter:
  "filter (\<lambda>c. \<not> is_space c) (surround S code) = filter (\<lambda>c. \<not> is_space c) code"
  by (induction code) (simp_all add: surround_Nil surround_Cons space_is_space)

lemma tokenize_concat:
  "tokenize code = Inr ts \<Longrightarrow> concat ts = filter (\<lambda>c. \<not> is_space c) code"
  by (auto simp: tokenize_char merge_concat fragments_def concat_nonempty split_at_concat
      surround_filter)


lemma tokenize_example:
  "tokenize ''IF x!=2{MOVE 1.5 Forward}'' =
     Inr [''IF'', ''x'', ''!='', ''2'', ''{'', ''MOVE'', ''1.5'', ''Forward'', ''}'']"
  by (simp add: tokenize_simps)

text \<open>
  C8. The tokenizer never fails: every input string has a token sequence. The sequence is
  what the spec describes: each of the characters \<^verbatim>\<open>{ } ( ) , + - * / = > < !\<close> is surrounded
  by spaces, the result is split at whitespace and the empty fragments are dropped, and then
  every adjacent pair \<^verbatim>\<open>!\<close> \<^verbatim>\<open>=\<close> is merged, from left to right, into \<^verbatim>\<open>!=\<close>. So every
  token is nonempty and free of whitespace; a token that contains one of the separated
  characters is that character alone or \<^verbatim>\<open>!=\<close>, the only operator of more than one
  character; no \<^verbatim>\<open>!\<close> is left in front of a \<^verbatim>\<open>=\<close>; and the tokens, put together, are the
  input without its whitespace.
\<close>

theorem tokenize_total:
  "(\<forall>code. \<exists>ts. tokenize code = Inr ts) \<and>
   (\<forall>code. tokenize code = Inr (merge_bang_eq (fragments (surround SEPARATED code)))) \<and>
   (\<forall>code ts t. tokenize code = Inr ts \<and> t \<in> set ts \<longrightarrow>
      t \<noteq> [] \<and> (\<forall>c \<in> set t. \<not> is_space c) \<and>
      (t = ''!='' \<or> (\<exists>c \<in> SEPARATED. t = [c]) \<or> set t \<inter> SEPARATED = {})) \<and>
   (\<forall>code ts i. tokenize code = Inr ts \<and> Suc i < length ts \<longrightarrow>
      \<not> (ts ! i = ''!'' \<and> ts ! Suc i = ''='')) \<and>
   (\<forall>code ts. tokenize code = Inr ts \<longrightarrow> concat ts = filter (\<lambda>c. \<not> is_space c) code)"
proof (intro conjI allI impI)
  fix code
  show "\<exists>ts. tokenize code = Inr ts" using tokenize_char by blast
  show "tokenize code = Inr (merge_bang_eq (fragments (surround SEPARATED code)))"
    by (rule tokenize_char)
next
  fix code ts t
  assume a: "tokenize code = Inr ts \<and> t \<in> set ts"
  then have "t \<in> set (merge_bang_eq (fragments (surround SEPARATED code)))"
    by (auto simp: tokenize_char)
  with merge_subset have "t = ''!='' \<or> t \<in> set (fragments (surround SEPARATED code))"
    by blast
  then have "t \<noteq> [] \<and> (\<forall>c \<in> set t. \<not> is_space c) \<and>
      (t = ''!='' \<or> (\<exists>c \<in> SEPARATED. t = [c]) \<or> set t \<inter> SEPARATED = {})"
  proof
    assume "t = ''!=''"
    then show ?thesis by (simp add: is_space_def)
  next
    assume "t \<in> set (fragments (surround SEPARATED code))"
    then show ?thesis using fragment_shape[of t code] by simp
  qed
  then show "t \<noteq> []" and "\<forall>c \<in> set t. \<not> is_space c"
    and "t = ''!='' \<or> (\<exists>c \<in> SEPARATED. t = [c]) \<or> set t \<inter> SEPARATED = {}"
    by simp_all
next
  fix code ts i
  assume "tokenize code = Inr ts \<and> Suc i < length ts"
  then have "ts = merge_bang_eq (fragments (surround SEPARATED code))" and "Suc i < length ts"
    by (simp_all add: tokenize_char)
  then show "\<not> (ts ! i = ''!'' \<and> ts ! Suc i = ''='')"
    using merge_no_pair by simp
next
  fix code ts
  assume "tokenize code = Inr ts"
  then show "concat ts = filter (\<lambda>c. \<not> is_space c) code" by (rule tokenize_concat)
qed

theorem tokenize_total_witness:
  "tokenize ''IF x!=2{MOVE 1.5 Forward}'' =
     Inr [''IF'', ''x'', ''!='', ''2'', ''{'', ''MOVE'', ''1.5'', ''Forward'', ''}''] \<and>
   ''!='' \<in> set [''IF'', ''x'', ''!='', ''2'', ''{'', ''MOVE'', ''1.5'', ''Forward'', ''}''] \<and>
   ''!='' \<noteq> [] \<and> \<not> is_space CHR ''!'' \<and> \<not> is_space CHR ''='' \<and>
   concat [''IF'', ''x'', ''!='', ''2'', ''{'', ''MOVE'', ''1.5'', ''Forward'', ''}''] =
     filter (\<lambda>c. \<not> is_space c) ''IF x!=2{MOVE 1.5 Forward}''"
proof -
  let ?code = "''IF x!=2{MOVE 1.5 Forward}''"
  let ?ts = "[''IF'', ''x'', ''!='', ''2'', ''{'', ''MOVE'', ''1.5'', ''Forward'', ''}'']"
  have h: "tokenize ?code = Inr ?ts \<and> ''!='' \<in> set ?ts"
    by (simp add: tokenize_example)
  have c3: "\<forall>code ts t. tokenize code = Inr ts \<and> t \<in> set ts \<longrightarrow>
      t \<noteq> [] \<and> (\<forall>c \<in> set t. \<not> is_space c) \<and>
      (t = ''!='' \<or> (\<exists>c \<in> SEPARATED. t = [c]) \<or> set t \<inter> SEPARATED = {})"
    using tokenize_total by (rule conjunct2[THEN conjunct2, THEN conjunct1])
  have c5: "\<forall>code ts. tokenize code = Inr ts \<longrightarrow> concat ts = filter (\<lambda>c. \<not> is_space c) code"
    using tokenize_total
    by (rule conjunct2[THEN conjunct2, THEN conjunct2, THEN conjunct2])
  have r3: "''!='' \<noteq> [] \<and> (\<forall>c \<in> set ''!=''. \<not> is_space c) \<and>
      (''!='' = ''!='' \<or> (\<exists>c \<in> SEPARATED. ''!='' = [c]) \<or> set ''!='' \<inter> SEPARATED = {})"
    by (rule c3[rule_format, of ?code ?ts "''!=''", OF h])
  have r5: "concat ?ts = filter (\<lambda>c. \<not> is_space c) ?code"
    by (rule c5[rule_format, of ?code ?ts, OF h[THEN conjunct1]])
  from r3 have a: "''!='' \<noteq> []" and b: "\<forall>c \<in> set ''!=''. \<not> is_space c"
    by (rule conjunct1, rule conjunct2[THEN conjunct1])
  from b have b1: "\<not> is_space CHR ''!''" and b2: "\<not> is_space CHR ''=''" by simp_all
  from h have t: "tokenize ?code = Inr ?ts" and m: "''!='' \<in> set ?ts"
    by (rule conjunct1, rule conjunct2)
  from t m a b1 b2 r5 show ?thesis by (intro conjI)
qed

end
